theory Spec2Isabelle
  imports
    Main
    "HOL-Library.Char_ord"
    "HOL-Library.List_Lexorder"
    "HOL-Library.Product_Lexorder"
    "HOL-Library.AList"
begin

section \<open>create\_intersect\_matrix.py: the intersection matrix of merged MACS2 peaks\<close>

text \<open>
  A shallow embedding of \<^verbatim>\<open>macs2_merged_expand\<close>
  (src/generate\_consensus\_peaks/create\_intersect\_matrix.py).

  Conventions of the embedding.
  \<^item> A Python \<^verbatim>\<open>str\<close> is a \<^typ>\<open>string\<close>: the bytes of its UTF-8 encoding. The separators
    of the source are ASCII, and an ASCII byte never lies inside the encoding of another
    character, so splitting the bytes splits the text. The order on strings is the
    lexicographic order of their bytes, which is the order of Python's \<^verbatim>\<open>sorted\<close> on code
    points. Tuples of strings are lists of strings under the same lexicographic order.
  \<^item> The input file is the list of the lines that \<^verbatim>\<open>for line in fin\<close> yields. Both passes
    read the same lines, and the input path is neither of the two output paths.
  \<^item> A Python \<^verbatim>\<open>int\<close> is an \<^typ>\<open>int\<close>.
  \<^item> The builtin \<^verbatim>\<open>int(x)\<close> on a string is the parameter \<open>pint\<close> (\<open>None\<close> where it raises
    ValueError); \<^verbatim>\<open>str\<close> on an integer is written out.
  \<^item> A Python \<^verbatim>\<open>float\<close> is a value of a type variable \<open>'f\<close>: the builtin \<^verbatim>\<open>float(x)\<close> is
    the parameter \<open>pf\<close> (\<open>None\<close> where it raises ValueError) and \<^verbatim>\<open>str\<close> on a float is the
    parameter \<open>sf\<close>.
  \<^item> A \<^verbatim>\<open>dict\<close> is an association list in insertion order with distinct keys;
    \<^const>\<open>AList.update\<close> replaces the value of a present key in place and appends an absent
    one, as a Python dict does.
  \<^item> A \<^verbatim>\<open>set\<close> is a \<^typ>\<open>'a set\<close>. The order in which Python iterates over a set of strings
    depends on the hash seed of the run: it is the parameter \<open>iter\<close>, a function from a set
    to a list of its elements.
  \<^item> An exception is a value \<open>Inl e\<close> of a sum type; nothing in the source catches one.
\<close>

subsection \<open>Errors\<close>

datatype error = IndexError | ValueError | KeyError

definition bind_err :: "error + 'a \<Rightarrow> ('a \<Rightarrow> error + 'b) \<Rightarrow> error + 'b" where
  "bind_err m f = (case m of Inl e \<Rightarrow> Inl e | Inr x \<Rightarrow> f x)"

fun traverse_err :: "('a \<Rightarrow> error + 'b) \<Rightarrow> 'a list \<Rightarrow> error + 'b list" where
  "traverse_err f [] = Inr []"
| "traverse_err f (x # xs) =
     bind_err (f x) (\<lambda>y. bind_err (traverse_err f xs) (\<lambda>ys. Inr (y # ys)))"

text \<open>\<^verbatim>\<open>xs[i]\<close> for an index \<open>i \<ge> 0\<close>.\<close>

definition get :: "'a list \<Rightarrow> nat \<Rightarrow> error + 'a" where
  "get xs i = (if i < length xs then Inr (xs ! i) else Inl IndexError)"

subsection \<open>Python's string operations\<close>

abbreviation TAB :: char where
  "TAB \<equiv> CHR 0x09"

text \<open>
  The characters for which \<^verbatim>\<open>str.isspace\<close> holds, each as its UTF-8 encoding: U+0009 to
  U+000D, U+001C to U+0020, U+0085, U+00A0, U+1680, U+2000 to U+200A, U+2028, U+2029, U+202F,
  U+205F and U+3000. None is the beginning of another.
\<close>

definition whitespace :: "string list" where
  "whitespace =
     [[CHR 0x09], [CHR 0x0A], [CHR 0x0B], [CHR 0x0C], [CHR 0x0D], [CHR 0x1C], [CHR 0x1D],
      [CHR 0x1E], [CHR 0x1F], [CHR 0x20], [CHR 0xC2, CHR 0x85], [CHR 0xC2, CHR 0xA0],
      [CHR 0xE1, CHR 0x9A, CHR 0x80], [CHR 0xE2, CHR 0x80, CHR 0x80],
      [CHR 0xE2, CHR 0x80, CHR 0x81], [CHR 0xE2, CHR 0x80, CHR 0x82],
      [CHR 0xE2, CHR 0x80, CHR 0x83], [CHR 0xE2, CHR 0x80, CHR 0x84],
      [CHR 0xE2, CHR 0x80, CHR 0x85], [CHR 0xE2, CHR 0x80, CHR 0x86],
      [CHR 0xE2, CHR 0x80, CHR 0x87], [CHR 0xE2, CHR 0x80, CHR 0x88],
      [CHR 0xE2, CHR 0x80, CHR 0x89], [CHR 0xE2, CHR 0x80, CHR 0x8A],
      [CHR 0xE2, CHR 0x80, CHR 0xA8], [CHR 0xE2, CHR 0x80, CHR 0xA9],
      [CHR 0xE2, CHR 0x80, CHR 0xAF], [CHR 0xE2, CHR 0x81, CHR 0x9F],
      [CHR 0xE3, CHR 0x80, CHR 0x80]]"

text \<open>
  The number of bytes of the sequence of \<open>seqs\<close> that \<open>s\<close> begins with, \<open>0\<close> when there is
  none; \<open>drop_ws\<close> removes such sequences from the beginning of a string.
\<close>

definition ws_match :: "string list \<Rightarrow> string \<Rightarrow> nat" where
  "ws_match seqs s =
     (case find (\<lambda>w. take (length w) s = w) seqs of None \<Rightarrow> 0 | Some w \<Rightarrow> length w)"

fun drop_ws :: "string list \<Rightarrow> string \<Rightarrow> string" where
  "drop_ws seqs [] = []"
| "drop_ws seqs (c # cs) =
     (case ws_match seqs (c # cs) of 0 \<Rightarrow> c # cs | Suc n \<Rightarrow> drop_ws seqs (drop n cs))"

text \<open>
  \<^verbatim>\<open>s.strip()\<close>: white space is removed from the beginning, and from the end by the same
  function on the reversed string and the reversed encodings. (In UTF-8 the first byte of a
  character is never a later byte of one, so the bytes of an encoding at the end of a text
  are that character.)
\<close>

definition py_strip :: "string \<Rightarrow> string" where
  "py_strip s = rev (drop_ws (map rev whitespace) (rev (drop_ws whitespace s)))"

text \<open>
  \<^verbatim>\<open>s.split(sep)\<close> for a separator that is not empty: \<open>acc\<close> holds the characters of the
  current piece, last first.
\<close>

fun split_from :: "string \<Rightarrow> string \<Rightarrow> string \<Rightarrow> string list" where
  "split_from sep acc [] = [rev acc]"
| "split_from sep acc (c # cs) =
     (if take (length sep) (c # cs) = sep
      then rev acc # split_from sep [] (drop (length sep - 1) cs)
      else split_from sep (c # acc) cs)"

definition py_split :: "string \<Rightarrow> string \<Rightarrow> string list" where
  "py_split sep s = split_from sep [] s"

text \<open>\<^verbatim>\<open>sep.join(xs)\<close>\<close>

fun py_join :: "string \<Rightarrow> string list \<Rightarrow> string" where
  "py_join sep [] = []"
| "py_join sep [x] = x"
| "py_join sep (x # y # ys) = x @ sep @ py_join sep (y # ys)"

text \<open>\<^verbatim>\<open>str(n)\<close> for an integer.\<close>

definition digit_char :: "nat \<Rightarrow> char" where
  "digit_char d = char_of (48 + d)"

fun str_nat :: "nat \<Rightarrow> string" where
  "str_nat n = (if n < 10 then [digit_char n] else str_nat (n div 10) @ [digit_char (n mod 10)])"

declare str_nat.simps [simp del]

definition str_int :: "int \<Rightarrow> string" where
  "str_int i = (if i < 0 then CHR ''-'' # str_nat (nat (- i)) else str_nat (nat i))"

text \<open>
  Decimal numerals: the digits of a string in which single underscores may separate the
  digits (\<open>None\<close> for any other string), and the value of a string of digits.
\<close>

definition is_digit :: "char \<Rightarrow> bool" where
  "is_digit c = (let n = (of_char c :: nat) in 48 \<le> n \<and> n \<le> 57)"

fun int_digits :: "string \<Rightarrow> string option" where
  "int_digits [] = None"
| "int_digits [c] = (if is_digit c then Some [c] else None)"
| "int_digits (c # d # cs) =
     (if is_digit c
      then (if d = CHR ''_'' then map_option (Cons c) (int_digits cs)
            else map_option (Cons c) (int_digits (d # cs)))
      else None)"

definition digits_value :: "string \<Rightarrow> int" where
  "digits_value ds = foldl (\<lambda>a c. 10 * a + (int (of_char c) - 48)) 0 ds"

text \<open>\<^verbatim>\<open>int(s)\<close>, with the builtin as the parameter \<open>pint\<close>.\<close>

definition py_int :: "(string \<Rightarrow> int option) \<Rightarrow> string \<Rightarrow> error + int" where
  "py_int pint s = (case pint s of None \<Rightarrow> Inl ValueError | Some i \<Rightarrow> Inr i)"

text \<open>\<^verbatim>\<open>float(s)\<close>, with the builtin as the parameter \<open>pf\<close>.\<close>

definition py_float :: "(string \<Rightarrow> 'f option) \<Rightarrow> string \<Rightarrow> error + 'f" where
  "py_float pf s = (case pf s of None \<Rightarrow> Inl ValueError | Some x \<Rightarrow> Inr x)"

subsection \<open>Sample and group names\<close>

text \<open>\<^verbatim>\<open>name.split(".")[0].split("_peak_")[0]\<close> (lines 96, 131 and 151).\<close>

definition sample_id :: "string \<Rightarrow> string" where
  "sample_id name = hd (py_split ''_peak_'' (hd (py_split ''.'' name)))"

text \<open>\<^verbatim>\<open>"_".join(sid.split("_")[:-1])\<close> (line 132).\<close>

definition group_id :: "string \<Rightarrow> string" where
  "group_id sid = py_join ''_'' (butlast (py_split ''_'' sid))"


subsection \<open>Sample Discovery (lines 91 to 99)\<close>

text \<open>
  The columns of a line, \<^verbatim>\<open>line.strip().split("\t")\<close> (lines 94 and 117), and its sample
  names: \<^verbatim>\<open>lspl[5]\<close> raises IndexError on a line of fewer than six columns.
\<close>

definition lspl :: "string \<Rightarrow> string list" where
  "lspl line = py_split [TAB] (py_strip line)"

definition line_names :: "string \<Rightarrow> error + string list" where
  "line_names line = bind_err (get (lspl line) 5) (\<lambda>f. Inr (py_split '','' f))"

fun all_sample_names :: "string list \<Rightarrow> string set \<Rightarrow> error + string set" where
  "all_sample_names [] acc = Inr acc"
| "all_sample_names (line # fin) acc =
     bind_err (line_names line)
       (\<lambda>names. all_sample_names fin (acc \<union> set (map sample_id names)))"

text \<open>\<^verbatim>\<open>sorted(s)\<close> on a set that Python iterates in the order \<open>iter s\<close>.\<close>

definition sorted_set :: "('a::linorder set \<Rightarrow> 'a list) \<Rightarrow> 'a set \<Rightarrow> 'a list" where
  "sorted_set iter s = sort (iter s)"

definition sample_discovery ::
  "(string set \<Rightarrow> string list) \<Rightarrow> string list \<Rightarrow> error + string list" where
  "sample_discovery iter fin =
     bind_err (all_sample_names fin {}) (\<lambda>names. Inr (sorted_set iter names))"

text \<open>
  What the embedding asks of an iteration order: it lists the elements of a finite set, each
  once.
\<close>

definition set_iteration :: "('a set \<Rightarrow> 'a list) \<Rightarrow> bool" where
  "set_iteration iter = (\<forall>s. finite s \<longrightarrow> set (iter s) = s \<and> distinct (iter s))"

subsection \<open>Row Expander (lines 116 to 187)\<close>

record 'f row =
  chrom_id :: string
  mstart :: int
  mend :: int
  starts :: "int list"
  ends :: "int list"
  names :: "string list"
  fcs :: "'f list"
  pvals :: "'f list"
  qvals :: "'f list"

text \<open>Lines 117 to 127, in the order in which Python evaluates them.\<close>

definition parse_row ::
  "(string \<Rightarrow> int option) \<Rightarrow> (string \<Rightarrow> 'f option) \<Rightarrow> string \<Rightarrow> error + 'f row" where
  "parse_row pint pf line =
     (let l = lspl line in
      bind_err (get l 0) (\<lambda>c.
      bind_err (bind_err (get l 1) (py_int pint)) (\<lambda>ms.
      bind_err (bind_err (get l 2) (py_int pint)) (\<lambda>me.
      bind_err (bind_err (get l 3) (\<lambda>f. traverse_err (py_int pint) (py_split '','' f))) (\<lambda>ss.
      bind_err (bind_err (get l 4) (\<lambda>f. traverse_err (py_int pint) (py_split '','' f))) (\<lambda>es.
      bind_err (bind_err (get l 5) (\<lambda>f. Inr (py_split '','' f))) (\<lambda>ns.
      bind_err (bind_err (get l 8) (\<lambda>f. traverse_err (py_float pf) (py_split '','' f))) (\<lambda>fs.
      bind_err (bind_err (get l 9) (\<lambda>f. traverse_err (py_float pf) (py_split '','' f))) (\<lambda>ps.
      bind_err (bind_err (get l 10) (\<lambda>f. traverse_err (py_float pf) (py_split '','' f))) (\<lambda>qs.
      Inr \<lparr>chrom_id = c, mstart = ms, mend = me, starts = ss, ends = es, names = ns,
           fcs = fs, pvals = ps, qvals = qs\<rparr>))))))))))"

text \<open>Lines 130 to 136: the distinct sample names of each group, in order of appearance.\<close>

definition group_add :: "string \<Rightarrow> (string \<times> string list) list \<Rightarrow> (string \<times> string list) list" where
  "group_add sid group_dict =
     (let gid = group_id sid in
      case map_of group_dict gid of
        None \<Rightarrow> AList.update gid [sid] group_dict
      | Some sids \<Rightarrow>
          if sid \<in> set sids then group_dict else AList.update gid (sids @ [sid]) group_dict)"

definition build_group_dict :: "string list \<Rightarrow> (string \<times> string list) list" where
  "build_group_dict ns = fold group_add (map sample_id ns) []"

text \<open>Lines 139 to 142.\<close>

definition pass_rep_thresh :: "int \<Rightarrow> (string \<times> string list) list \<Rightarrow> string list" where
  "pass_rep_thresh min_replicates group_dict =
     fold (\<lambda>(gid, sids) acc. if int (length sids) \<ge> min_replicates then acc @ sids else acc)
       group_dict []"

text \<open>
  Lines 145 to 167. \<^verbatim>\<open>if k not in d: d[k] = []\<close> followed by \<^verbatim>\<open>d[k].append(v)\<close> is
  \<open>dict_append\<close>; the five dictionaries are the fields of \<open>acc\<close>. An index out of range
  raises IndexError; the appends made before it in the same iteration are lost with the whole
  run, so the model reads the five values first.
\<close>

definition dict_append :: "'k \<Rightarrow> 'v \<Rightarrow> ('k \<times> 'v list) list \<Rightarrow> ('k \<times> 'v list) list" where
  "dict_append k v d =
     AList.update k ((case map_of d k of None \<Rightarrow> [] | Some vs \<Rightarrow> vs) @ [v]) d"

record acc =
  fc_dict :: "(string \<times> string list) list"
  qval_dict :: "(string \<times> string list) list"
  pval_dict :: "(string \<times> string list) list"
  start_dict :: "(string \<times> string list) list"
  end_dict :: "(string \<times> string list) list"

definition acc_empty :: acc where
  "acc_empty = \<lparr>fc_dict = [], qval_dict = [], pval_dict = [], start_dict = [], end_dict = []\<rparr>"

definition acc_step :: "('f \<Rightarrow> string) \<Rightarrow> 'f row \<Rightarrow> string list \<Rightarrow> nat \<Rightarrow> acc \<Rightarrow> error + acc" where
  "acc_step sf r pass_rep_thresh_list idx a =
     (let sample = sample_id (names r ! idx) in
      if sample \<in> set pass_rep_thresh_list then
        bind_err (get (fcs r) idx) (\<lambda>fc.
        bind_err (get (qvals r) idx) (\<lambda>qv.
        bind_err (get (pvals r) idx) (\<lambda>pv.
        bind_err (get (starts r) idx) (\<lambda>st.
        bind_err (get (ends r) idx) (\<lambda>en.
        Inr \<lparr>fc_dict = dict_append sample (sf fc) (fc_dict a),
             qval_dict = dict_append sample (sf qv) (qval_dict a),
             pval_dict = dict_append sample (sf pv) (pval_dict a),
             start_dict = dict_append sample (str_int st) (start_dict a),
             end_dict = dict_append sample (str_int en) (end_dict a)\<rparr>)))))
      else Inr a)"

fun accumulate :: "('f \<Rightarrow> string) \<Rightarrow> 'f row \<Rightarrow> string list \<Rightarrow> nat list \<Rightarrow> acc \<Rightarrow> error + acc" where
  "accumulate sf r pass [] a = Inr a"
| "accumulate sf r pass (idx # idxs) a =
     bind_err (acc_step sf r pass idx a) (accumulate sf r pass idxs)"

text \<open>The dictionaries of a row: lines 130 to 167.\<close>

definition row_dicts :: "('f \<Rightarrow> string) \<Rightarrow> int \<Rightarrow> 'f row \<Rightarrow> error + acc" where
  "row_dicts sf min_replicates r =
     accumulate sf r (pass_rep_thresh min_replicates (build_group_dict (names r)))
       [0..<length (names r)] acc_empty"

text \<open>
  Lines 173 to 178: one column per name of \<open>sample_name_list\<close>. \<^verbatim>\<open>d[x]\<close> raises KeyError on
  an absent key.
\<close>

definition bool_list :: "string list \<Rightarrow> string list \<Rightarrow> string list" where
  "bool_list samples sample_name_list =
     map (\<lambda>x. if x \<in> set samples then ''TRUE'' else ''FALSE'') sample_name_list"

definition value_list ::
  "(string \<times> string list) list \<Rightarrow> string list \<Rightarrow> string list \<Rightarrow> error + string list" where
  "value_list d samples sample_name_list =
     traverse_err
       (\<lambda>x. if x \<in> set samples
            then (case map_of d x of None \<Rightarrow> Inl KeyError | Some vs \<Rightarrow> Inr (py_join '';'' vs))
            else Inr ''NA'')
       sample_name_list"

text \<open>
  The state that the loop over the lines carries: the frequency of each combination of
  samples, the number of intervals written, and the rows written to \<^verbatim>\<open>fout\<close>, each as the
  list of fields that line 181 joins with tabs.
\<close>

record state =
  comb_freq_dict :: "(string list \<times> int) list"
  total_out_intervals :: int
  fout :: "string list list"

definition state_init :: state where
  "state_init = \<lparr>comb_freq_dict = [], total_out_intervals = 0, fout = []\<rparr>"

text \<open>Lines 184 to 186.\<close>

definition comb_freq_incr :: "string list \<Rightarrow> (string list \<times> int) list \<Rightarrow> (string list \<times> int) list" where
  "comb_freq_incr tsamples d =
     AList.update tsamples ((case map_of d tsamples of None \<Rightarrow> 0 | Some n \<Rightarrow> n) + 1) d"

text \<open>Line 170: \<^verbatim>\<open>sorted(fc_dict.keys())\<close>, the contributing samples of the row.\<close>

definition samples_of :: "acc \<Rightarrow> string list" where
  "samples_of a = sort (map fst (fc_dict a))"

text \<open>Lines 171 to 180: the fields of the output row, \<open>None\<close> when \<^verbatim>\<open>samples\<close> is empty.\<close>

definition row_olist ::
  "string list \<Rightarrow> int \<Rightarrow> 'f row \<Rightarrow> acc \<Rightarrow> error + string list option" where
  "row_olist sample_name_list n r a =
     (let samples = samples_of a in
      if samples = [] then Inr None
      else
        bind_err (value_list (fc_dict a) samples sample_name_list) (\<lambda>fc_list.
        bind_err (value_list (qval_dict a) samples sample_name_list) (\<lambda>qval_list.
        bind_err (value_list (pval_dict a) samples sample_name_list) (\<lambda>pval_list.
        bind_err (value_list (start_dict a) samples sample_name_list) (\<lambda>start_list.
        bind_err (value_list (end_dict a) samples sample_name_list) (\<lambda>end_list.
        Inr (Some
          ([chrom_id r, str_int (mstart r), str_int (mend r),
            ''Interval_'' @ str_int (n + 1), str_int (int (length (names r))),
            str_int (int (length samples))]
           @ bool_list samples sample_name_list
           @ fc_list @ qval_list @ pval_list @ start_list @ end_list))))))))"

text \<open>The body of the loop of line 116 on one line of the input.\<close>

definition expand_line ::
  "(string \<Rightarrow> int option) \<Rightarrow> (string \<Rightarrow> 'f option) \<Rightarrow> ('f \<Rightarrow> string) \<Rightarrow> string list \<Rightarrow> int \<Rightarrow> state \<Rightarrow> string \<Rightarrow>
   error + state" where
  "expand_line pint pf sf sample_name_list min_replicates s line =
     bind_err (parse_row pint pf line) (\<lambda>r.
     bind_err (row_dicts sf min_replicates r) (\<lambda>a.
     bind_err (row_olist sample_name_list (total_out_intervals s) r a) (\<lambda>out.
       case out of
         None \<Rightarrow> Inr s
       | Some olist \<Rightarrow>
           Inr \<lparr>comb_freq_dict =
                  comb_freq_incr (sort (samples_of a)) (comb_freq_dict s),
                total_out_intervals = total_out_intervals s + 1,
                fout = fout s @ [olist]\<rparr>)))"

text \<open>
  The loop of line 116: it stops at the first line that raises, with the state reached
  before that line.
\<close>

fun expand_lines ::
  "(string \<Rightarrow> int option) \<Rightarrow> (string \<Rightarrow> 'f option) \<Rightarrow> ('f \<Rightarrow> string) \<Rightarrow> string list \<Rightarrow> int \<Rightarrow> state \<Rightarrow> string list \<Rightarrow>
   state \<times> error option" where
  "expand_lines pint pf sf snl mr s [] = (s, None)"
| "expand_lines pint pf sf snl mr s (line # fin) =
     (case expand_line pint pf sf snl mr s line of
        Inl e \<Rightarrow> (s, Some e)
      | Inr s' \<Rightarrow> expand_lines pint pf sf snl mr s' fin)"

subsection \<open>Combination Summarizer (lines 191 to 194)\<close>

text \<open>
  \<^verbatim>\<open>sorted(xs, reverse=True)\<close>: CPython reverses the list, sorts it with its stable sort, and
  reverses the result.
\<close>

definition sorted_reverse :: "'a::linorder list \<Rightarrow> 'a list" where
  "sorted_reverse xs = rev (sort (rev xs))"

definition comb_freq_items :: "(string list \<times> int) list \<Rightarrow> (int \<times> string list) list" where
  "comb_freq_items d = sorted_reverse (map (\<lambda>(x, n). (n, x)) d)"

definition intersect_line :: "int \<times> string list \<Rightarrow> string" where
  "intersect_line kv = (case kv of (k, v) \<Rightarrow> py_join ''&'' v @ [TAB] @ str_int k @ ''\<newline>'')"

subsection \<open>The whole run\<close>

text \<open>Lines 104 to 110.\<close>

definition ofields :: "string list \<Rightarrow> string list" where
  "ofields sample_name_list =
     [''chr'', ''start'', ''end'', ''interval_id'', ''num_peaks'', ''num_samples'']
     @ map (\<lambda>x. x @ ''.bool'') sample_name_list
     @ map (\<lambda>x. x @ ''.fc'') sample_name_list
     @ map (\<lambda>x. x @ ''.qval'') sample_name_list
     @ map (\<lambda>x. x @ ''.pval'') sample_name_list
     @ map (\<lambda>x. x @ ''.start'') sample_name_list
     @ map (\<lambda>x. x @ ''.end'') sample_name_list"

text \<open>\<^verbatim>\<open>fout.write("\t".join(fs) + "\n")\<close>\<close>

definition write_line :: "string list \<Rightarrow> string" where
  "write_line fs = py_join [TAB] fs @ ''\<newline>''"

text \<open>
  The outcome of a run: the text written to OUTFILE and to the \<^verbatim>\<open>.intersect.txt\<close> file, one
  string for each call of \<^verbatim>\<open>write\<close> (\<open>None\<close> for a file that the run has not opened), and the
  exception that ended the run, if any.
\<close>

record outcome =
  primary :: "string list option"
  secondary :: "string list option"
  raised :: "error option"

definition macs2_merged_expand ::
  "(string \<Rightarrow> int option) \<Rightarrow> (string \<Rightarrow> 'f option) \<Rightarrow> ('f \<Rightarrow> string) \<Rightarrow> (string set \<Rightarrow> string list) \<Rightarrow>
   string list \<Rightarrow> int \<Rightarrow> outcome" where
  "macs2_merged_expand pint pf sf iter fin min_replicates =
     (case sample_discovery iter fin of
        Inl e \<Rightarrow> \<lparr>primary = None, secondary = None, raised = Some e\<rparr>
      | Inr sample_name_list \<Rightarrow>
          (case expand_lines pint pf sf sample_name_list min_replicates state_init fin of
             (s, Some e) \<Rightarrow>
               \<lparr>primary = Some (map write_line (ofields sample_name_list # fout s)),
                secondary = None, raised = Some e\<rparr>
           | (s, None) \<Rightarrow>
               \<lparr>primary = Some (map write_line (ofields sample_name_list # fout s)),
                secondary = Some (map intersect_line (comb_freq_items (comb_freq_dict s))),
                raised = None\<rparr>))"

subsection \<open>The words of the specification, and auxiliary notions of the proofs\<close>

text \<open>
  The substring of \<open>s\<close> before the first occurrence of \<open>sep\<close>, the whole of \<open>s\<close> when \<open>sep\<close>
  does not occur in it: \<open>first_index\<close> is the least position at which \<open>sep\<close> occurs.
\<close>

definition first_index :: "string \<Rightarrow> string \<Rightarrow> nat option" where
  "first_index sep s = find (\<lambda>i. take (length sep) (drop i s) = sep) [0..<Suc (length s)]"

definition substring_before :: "string \<Rightarrow> string \<Rightarrow> string" where
  "substring_before sep s = (case first_index sep s of None \<Rightarrow> s | Some i \<Rightarrow> take i s)"

text \<open>The same substring by recursion on \<open>s\<close>, as \<open>split_from\<close> computes it.\<close>

fun before_first :: "string \<Rightarrow> string \<Rightarrow> string" where
  "before_first sep [] = []"
| "before_first sep (c # cs) =
     (if take (length sep) (c # cs) = sep then [] else c # before_first sep cs)"


text \<open>The value of a key in a dictionary of lists, empty for an absent key.\<close>

definition lookup_list :: "('k \<times> 'v list) list \<Rightarrow> 'k \<Rightarrow> 'v list" where
  "lookup_list d k = (case map_of d k of None \<Rightarrow> [] | Some vs \<Rightarrow> vs)"

text \<open>
  The invariant of \<^verbatim>\<open>group_dict\<close>: distinct keys, and under each key a non-empty list of
  distinct sample names of that group.
\<close>

definition group_inv :: "(string \<times> string list) list \<Rightarrow> bool" where
  "group_inv gd \<longleftrightarrow>
     distinct (map fst gd) \<and>
     (\<forall>(g, l) \<in> set gd. l \<noteq> [] \<and> distinct l \<and> (\<forall>s \<in> set l. group_id s = g))"


text \<open>
  Source \<open>idx\<close> of a row has a value in each of the five sequences that line 155 to 167
  index.
\<close>

definition in_range :: "'f row \<Rightarrow> nat \<Rightarrow> bool" where
  "in_range r idx \<longleftrightarrow>
     idx < length (fcs r) \<and> idx < length (qvals r) \<and> idx < length (pvals r) \<and>
     idx < length (starts r) \<and> idx < length (ends r)"

text \<open>
  The eligible sources of a row: the indices of the names whose sample passes the replicate
  threshold.
\<close>

definition eligible :: "int \<Rightarrow> 'f row \<Rightarrow> nat list" where
  "eligible mr r =
     filter (\<lambda>idx. sample_id (names r ! idx) \<in> set (pass_rep_thresh mr (build_group_dict (names r))))
       [0..<length (names r)]"

text \<open>The five appends of lines 153 to 167 for a source that has its five values.\<close>

definition acc_add :: "('f \<Rightarrow> string) \<Rightarrow> 'f row \<Rightarrow> nat \<Rightarrow> acc \<Rightarrow> acc" where
  "acc_add sf r idx a =
     \<lparr>fc_dict = dict_append (sample_id (names r ! idx)) (sf (fcs r ! idx)) (fc_dict a),
      qval_dict = dict_append (sample_id (names r ! idx)) (sf (qvals r ! idx)) (qval_dict a),
      pval_dict = dict_append (sample_id (names r ! idx)) (sf (pvals r ! idx)) (pval_dict a),
      start_dict = dict_append (sample_id (names r ! idx)) (str_int (starts r ! idx)) (start_dict a),
      end_dict = dict_append (sample_id (names r ! idx)) (str_int (ends r ! idx)) (end_dict a)\<rparr>"

text \<open>The values that the eligible sources of sample \<open>s\<close> contribute, in source order.\<close>

definition sample_values :: "int \<Rightarrow> 'f row \<Rightarrow> (nat \<Rightarrow> string) \<Rightarrow> string \<Rightarrow> string list" where
  "sample_values mr r v s = map v (filter (\<lambda>idx. sample_id (names r ! idx) = s) (eligible mr r))"

text \<open>
  Instances of the parameters, for the examples. \<open>int_ascii\<close> is \<^verbatim>\<open>int(s)\<close> on ASCII text:
  the white space of C's \<^verbatim>\<open>isspace\<close> around the number is dropped, one sign may come first,
  the decimal digits may be separated by single underscores, and more than 4300 digits are
  refused (the default bound of Python 3.11 and later). \<open>float_int\<close> and \<open>str_float_int\<close> are
  the float parameters on the texts of integers, where Python gives
  \<^verbatim>\<open>str(float("2")) == "2.0"\<close>.
\<close>

definition c_isspace :: "char \<Rightarrow> bool" where
  "c_isspace c = (let n = (of_char c :: nat) in (9 \<le> n \<and> n \<le> 13) \<or> n = 32)"

definition int_ascii :: "string \<Rightarrow> int option" where
  "int_ascii s =
     (case rev (dropWhile c_isspace (rev (dropWhile c_isspace s))) of
        [] \<Rightarrow> None
      | c # cs \<Rightarrow>
          (case (if c = CHR ''-'' then (- 1, int_digits cs)
                 else if c = CHR ''+'' then (1, int_digits cs)
                 else (1, int_digits (c # cs))) of
             (sign, None) \<Rightarrow> None
           | (sign, Some ds) \<Rightarrow>
               if length ds > 4300 then None else Some (sign * digits_value ds)))"

definition float_int :: "string \<Rightarrow> int option" where
  "float_int s = int_ascii s"

definition str_float_int :: "int \<Rightarrow> string" where
  "str_float_int i = str_int i @ ''.0''"

text \<open>
  The columns of lines 174 to 178 for a dictionary whose keys are the contributing samples,
  and the fields of the row of lines 179 and 180.
\<close>

definition value_col :: "(string \<times> string list) list \<Rightarrow> string list \<Rightarrow> string list \<Rightarrow> string list" where
  "value_col d samples sample_name_list =
     map (\<lambda>x. if x \<in> set samples then py_join '';'' (lookup_list d x) else ''NA'')
       sample_name_list"

definition row_fields :: "string list \<Rightarrow> int \<Rightarrow> 'f row \<Rightarrow> acc \<Rightarrow> string list" where
  "row_fields sample_name_list n r a =
     [chrom_id r, str_int (mstart r), str_int (mend r), ''Interval_'' @ str_int (n + 1),
      str_int (int (length (names r))), str_int (int (length (samples_of a)))]
     @ bool_list (samples_of a) sample_name_list
     @ value_col (fc_dict a) (samples_of a) sample_name_list
     @ value_col (qval_dict a) (samples_of a) sample_name_list
     @ value_col (pval_dict a) (samples_of a) sample_name_list
     @ value_col (start_dict a) (samples_of a) sample_name_list
     @ value_col (end_dict a) (samples_of a) sample_name_list"

text \<open>The state after a row that is written.\<close>

definition emit :: "string list \<Rightarrow> 'f row \<Rightarrow> acc \<Rightarrow> state \<Rightarrow> state" where
  "emit sample_name_list r a s =
     \<lparr>comb_freq_dict = comb_freq_incr (sort (samples_of a)) (comb_freq_dict s),
      total_out_intervals = total_out_intervals s + 1,
      fout = fout s @ [row_fields sample_name_list (total_out_intervals s) r a]\<rparr>"



section \<open>Lemmas\<close>

subsection \<open>Errors\<close>

lemma bind_err_Inr [simp]: "bind_err (Inr x) f = f x"
  by (simp add: bind_err_def)

lemma bind_err_Inl [simp]: "bind_err (Inl e) f = Inl e"
  by (simp add: bind_err_def)

lemma bind_err_eq_Inr: "bind_err m f = Inr y \<longleftrightarrow> (\<exists>x. m = Inr x \<and> f x = Inr y)"
  by (cases m) auto

subsection \<open>Strings\<close>

lemma split_from_not_Nil: "split_from sep acc s \<noteq> []"
  by (induction sep acc s rule: split_from.induct) auto

lemma hd_split_from: "sep \<noteq> [] \<Longrightarrow> hd (split_from sep acc s) = rev acc @ before_first sep s"
  by (induction sep acc s rule: split_from.induct) auto

lemma find_map_option: "find P (map f xs) = map_option f (find (\<lambda>x. P (f x)) xs)"
  by (induction xs) auto

lemma find_upt_Suc:
  "find P [0..<Suc (Suc n)] = (if P 0 then Some 0 else map_option Suc (find (\<lambda>i. P (Suc i)) [0..<Suc n]))"
proof -
  have "[0..<Suc (Suc n)] = 0 # map Suc [0..<Suc n]"
    by (metis map_Suc_upt upt_conv_Cons zero_less_Suc)
  then show ?thesis
    by (simp add: find_map_option del: upt_Suc)
qed

lemma before_first_eq: "sep \<noteq> [] \<Longrightarrow> before_first sep s = substring_before sep s"
proof (induction s)
  case Nil
  then show ?case by (simp add: substring_before_def first_index_def)
next
  case (Cons c cs)
  then show ?case
    by (auto simp: substring_before_def first_index_def find_upt_Suc simp del: upt_Suc split: option.splits)
qed

lemma hd_py_split: "sep \<noteq> [] \<Longrightarrow> hd (py_split sep s) = substring_before sep s"
  by (simp add: py_split_def hd_split_from before_first_eq)

lemma sample_id_eq: "sample_id name = substring_before ''_peak_'' (substring_before ''.'' name)"
  by (simp add: sample_id_def hd_py_split)



lemma set_substring_before: "set (substring_before sep s) \<subseteq> set s"
  by (auto simp: substring_before_def split: option.splits dest: in_set_takeD)

lemma set_sample_id: "set (sample_id name) \<subseteq> set name"
  unfolding sample_id_eq using set_substring_before by blast

lemma split_from_single_free: "c \<notin> set s \<Longrightarrow> split_from [c] acc s = [rev acc @ s]"
  by (induction s arbitrary: acc) auto

lemma py_split_single_free: "c \<notin> set s \<Longrightarrow> py_split [c] s = [s]"
  by (simp add: py_split_def split_from_single_free)

lemma split_from_pieces_free:
  "c \<notin> set acc \<Longrightarrow> \<forall>x \<in> set (split_from [c] acc s). c \<notin> set x"
proof (induction s arbitrary: acc)
  case Nil
  then show ?case by simp
next
  case (Cons a s)
  show ?case
  proof (cases "a = c")
    case True
    then show ?thesis using Cons.IH[of "[]"] Cons.prems by simp
  next
    case False
    then show ?thesis using Cons.IH[of "a # acc"] Cons.prems by simp
  qed
qed

lemma py_split_pieces_free: "x \<in> set (py_split [c] s) \<Longrightarrow> c \<notin> set x"
  unfolding py_split_def using split_from_pieces_free[of c "[]" s] by simp

lemma split_from_join:
  "\<forall>f \<in> set (f0 # fs). c \<notin> set f \<Longrightarrow>
     split_from [c] acc (py_join [c] (f0 # fs)) = (rev acc @ f0) # fs"
proof (induction fs arbitrary: f0 acc)
  case Nil
  then show ?case by (simp add: split_from_single_free)
next
  case (Cons g gs)
  have f0: "c \<notin> set f0" using Cons.prems by simp
  have step: "split_from [c] acc (f0 @ c # t) = (rev acc @ f0) # split_from [c] [] t" for acc t
    using f0 by (induction f0 arbitrary: acc) auto
  show ?case using Cons.IH[of g "[]"] Cons.prems by (simp add: step)
qed

lemma py_split_join:
  "fs \<noteq> [] \<Longrightarrow> \<forall>f \<in> set fs. c \<notin> set f \<Longrightarrow> py_split [c] (py_join [c] fs) = fs"
  by (cases fs) (simp_all add: py_split_def split_from_join del: py_join.simps)

lemma of_char_digit_char: "d < 10 \<Longrightarrow> of_char (digit_char d) = 48 + d"
  by (simp add: digit_char_def)

lemma str_nat_digits: "c \<in> set (str_nat n) \<Longrightarrow> is_digit c"
proof (induction n rule: str_nat.induct)
  case (1 n)
  have d: "is_digit (digit_char k)" if "k < 10" for k
    using that by (simp add: is_digit_def of_char_digit_char)
  show ?case
  proof (cases "n < 10")
    case True
    then show ?thesis using 1 d by (subst (asm) (2) str_nat.simps) auto
  next
    case False
    then show ?thesis using 1 d[of "n mod 10"] by (subst (asm) (2) str_nat.simps) auto
  qed
qed

lemma str_int_no_tab: "TAB \<notin> set (str_int i)"
  using str_nat_digits[of TAB] by (auto simp: str_int_def is_digit_def)

subsection \<open>Replicate groups\<close>

lemma map_of_update_alist: "map_of (AList.update k v al) k' = (if k' = k then Some v else map_of al k')"
  by (simp add: update_conv')

lemma set_update_alist:
  "distinct (map fst al) \<Longrightarrow>
     set (AList.update k v al) = {p \<in> set al. fst p \<noteq> k} \<union> {(k, v)}"
  by (induction al) (auto simp: rev_image_eqI)

lemma group_add_inv: "group_inv gd \<Longrightarrow> group_inv (group_add sid gd)"
  unfolding group_inv_def group_add_def Let_def
  by (auto simp: distinct_update set_update_alist split: option.splits dest!: map_of_SomeD)

lemma group_add_lookup:
  "set (lookup_list (group_add sid gd) g) =
     set (lookup_list gd g) \<union> (if group_id sid = g then {sid} else {})"
  unfolding group_add_def Let_def lookup_list_def
  by (auto simp: map_of_update_alist split: option.splits)

lemma fold_group_add_inv: "group_inv gd \<Longrightarrow> group_inv (fold group_add sids gd)"
  by (induction sids arbitrary: gd) (auto simp: group_add_inv)

lemma fold_group_add_lookup:
  "set (lookup_list (fold group_add sids gd) g) =
     set (lookup_list gd g) \<union> {s \<in> set sids. group_id s = g}"
  by (induction sids arbitrary: gd) (auto simp: group_add_lookup)

lemma build_group_dict_inv: "group_inv (build_group_dict ns)"
  unfolding build_group_dict_def by (rule fold_group_add_inv) (simp add: group_inv_def)

lemma build_group_dict_lookup:
  "set (lookup_list (build_group_dict ns) g) = {s \<in> sample_id ` set ns. group_id s = g}"
  unfolding build_group_dict_def fold_group_add_lookup by (auto simp: lookup_list_def)

lemma build_group_dict_entry:
  assumes "(g, l) \<in> set (build_group_dict ns)"
  shows "distinct l \<and> l \<noteq> [] \<and> set l = {s \<in> sample_id ` set ns. group_id s = g}"
proof -
  have inv: "group_inv (build_group_dict ns)" by (rule build_group_dict_inv)
  then have "map_of (build_group_dict ns) g = Some l"
    using assms by (simp add: group_inv_def)
  then have "lookup_list (build_group_dict ns) g = l" by (simp add: lookup_list_def)
  then show ?thesis using build_group_dict_lookup[of ns g] inv assms
    by (auto simp: group_inv_def)
qed

lemma build_group_dict_keys:
  "fst ` set (build_group_dict ns) = group_id ` sample_id ` set ns"
proof (intro set_eqI iffI)
  fix g assume "g \<in> fst ` set (build_group_dict ns)"
  then obtain l where e: "(g, l) \<in> set (build_group_dict ns)" by auto
  from build_group_dict_entry[OF e] have ne: "l \<noteq> []"
    and sl: "set l = {s \<in> sample_id ` set ns. group_id s = g}" by auto
  from ne obtain s where "s \<in> set l" by (cases l) auto
  with sl have "s \<in> sample_id ` set ns" and "group_id s = g" by auto
  then show "g \<in> group_id ` sample_id ` set ns" by blast
next
  fix g assume "g \<in> group_id ` sample_id ` set ns"
  then have "{s \<in> sample_id ` set ns. group_id s = g} \<noteq> {}" by auto
  then have "lookup_list (build_group_dict ns) g \<noteq> []"
    using build_group_dict_lookup[of ns g] by auto
  then show "g \<in> fst ` set (build_group_dict ns)"
    by (auto simp: lookup_list_def split: option.splits dest!: map_of_SomeD intro: rev_image_eqI)
qed

lemma fold_pass_set:
  "set (fold (\<lambda>(gid, sids) acc. if int (length sids) \<ge> mr then acc @ sids else acc) gd acc0) =
     set acc0 \<union> (\<Union>(g, l) \<in> set gd. if mr \<le> int (length l) then set l else {})"
  by (induction gd arbitrary: acc0) (auto split: if_splits)

lemma pass_rep_thresh_set:
  "set (pass_rep_thresh mr (build_group_dict ns)) =
     {s \<in> sample_id ` set ns.
        mr \<le> int (card {t \<in> sample_id ` set ns. group_id t = group_id s})}"
  (is "?L = ?R")
proof (intro set_eqI iffI)
  fix s assume "s \<in> ?L"
  then obtain g l where e: "(g, l) \<in> set (build_group_dict ns)"
    and m: "mr \<le> int (length l)" and s: "s \<in> set l"
    unfolding pass_rep_thresh_def fold_pass_set by (auto split: if_splits)
  from build_group_dict_entry[OF e] have d: "distinct l"
    and sl: "set l = {s \<in> sample_id ` set ns. group_id s = g}" by auto
  have "length l = card (set l)" using d by (simp add: distinct_card)
  then show "s \<in> ?R" using m s sl by auto
next
  fix s assume r: "s \<in> ?R"
  then have "group_id s \<in> fst ` set (build_group_dict ns)"
    unfolding build_group_dict_keys by auto
  then obtain l where e: "(group_id s, l) \<in> set (build_group_dict ns)" by auto
  from build_group_dict_entry[OF e] have d: "distinct l"
    and sl: "set l = {t \<in> sample_id ` set ns. group_id t = group_id s}" by auto
  have "length l = card (set l)" using d by (simp add: distinct_card)
  then have "mr \<le> int (length l)" and "s \<in> set l" using r sl by auto
  then show "s \<in> ?L" using e
    unfolding pass_rep_thresh_def fold_pass_set by (auto intro!: bexI[of _ "(group_id s, l)"])
qed

lemma group_id_no_underscore: "CHR ''_'' \<notin> set sid \<Longrightarrow> group_id sid = []"
  by (simp add: group_id_def py_split_single_free)

subsection \<open>The group of a sample name\<close>

lemma py_join_Cons: "xs \<noteq> [] \<Longrightarrow> py_join sep (x # xs) = x @ sep @ py_join sep xs"
  by (cases xs) simp_all

lemma split_from_snoc:
  "c \<notin> set t \<Longrightarrow> split_from [c] acc (g @ c # t) = split_from [c] acc g @ [t]"
  by (induction g arbitrary: acc) (auto simp: split_from_single_free)

lemma join_split_from: "py_join [c] (split_from [c] acc g) = rev acc @ g"
  by (induction g arbitrary: acc) (auto simp: py_join_Cons split_from_not_Nil)

lemma group_id_drop_last: "CHR ''_'' \<notin> set t \<Longrightarrow> group_id (g @ ''_'' @ t) = g"
  using split_from_snoc[of "CHR ''_''" t "[]" g] join_split_from[of "CHR ''_''" "[]" g]
  by (simp add: group_id_def py_split_def)

subsection \<open>The text of an integer\<close>

lemma digits_value_snoc:
  "digits_value (ds @ [c]) = 10 * digits_value ds + (int (of_char c) - 48)"
  by (simp add: digits_value_def)

lemma digits_value_str_nat: "digits_value (str_nat n) = int n"
proof (induction n rule: str_nat.induct)
  case (1 n)
  show ?case
  proof (cases "n < 10")
    case True
    then show ?thesis
      by (subst str_nat.simps) (simp add: digits_value_def of_char_digit_char)
  next
    case False
    have "digits_value (str_nat n) =
          10 * digits_value (str_nat (n div 10)) + (int (of_char (digit_char (n mod 10))) - 48)"
      using False by (subst str_nat.simps) (simp add: digits_value_snoc)
    also have "\<dots> = 10 * int (n div 10) + int (n mod 10)"
      using 1[OF False] by (simp add: of_char_digit_char)
    also have "\<dots> = int n" by presburger
    finally show ?thesis .
  qed
qed

lemma str_nat_not_Nil: "str_nat n \<noteq> []"
proof (cases "n < 10")
  case True
  then have "str_nat n = [digit_char n]" by (subst str_nat.simps) simp
  then show ?thesis by simp
next
  case False
  then have "str_nat n = str_nat (n div 10) @ [digit_char (n mod 10)]"
    by (subst str_nat.simps) simp
  then show ?thesis by simp
qed

lemma str_nat_inj:
  assumes "str_nat m = str_nat n"
  shows "m = n"
proof -
  have "int m = digits_value (str_nat m)" by (rule digits_value_str_nat[symmetric])
  also have "\<dots> = digits_value (str_nat n)" by (rule arg_cong[OF assms])
  also have "\<dots> = int n" by (rule digits_value_str_nat)
  finally show ?thesis by (rule of_nat_eq_iff[THEN iffD1])
qed

lemma str_nat_no_minus: "str_nat n \<noteq> CHR ''-'' # cs"
proof
  assume "str_nat n = CHR ''-'' # cs"
  then have "CHR ''-'' \<in> set (str_nat n)" by simp
  then have "is_digit CHR ''-''" by (rule str_nat_digits)
  then show False by (simp add: is_digit_def)
qed

lemma str_int_inj: "str_int i = str_int j \<Longrightarrow> i = j"
proof -
  assume e: "str_int i = str_int j"
  show "i = j"
  proof (cases "i < 0"; cases "j < 0")
    assume "i < 0" "j < 0"
    then show ?thesis using e str_nat_inj[of "nat (- i)" "nat (- j)"] by (simp add: str_int_def)
  next
    assume "i < 0" "\<not> j < 0"
    then show ?thesis using e str_nat_no_minus[of "nat j" "str_nat (nat (- i))"]
      by (simp add: str_int_def)
  next
    assume "\<not> i < 0" "j < 0"
    then show ?thesis using e str_nat_no_minus[of "nat i" "str_nat (nat (- j))"]
      by (simp add: str_int_def)
  next
    assume "\<not> i < 0" "\<not> j < 0"
    then show ?thesis using e str_nat_inj[of "nat i" "nat j"] by (simp add: str_int_def)
  qed
qed

lemma str_int_decimal:
  "0 \<le> k \<Longrightarrow> (\<forall>c \<in> set (str_int k). is_digit c) \<and> digits_value (str_int k) = k"
  using str_nat_digits[of _ "nat k"] by (auto simp: str_int_def digits_value_str_nat)

subsection \<open>Stripping a line\<close>











section \<open>The claims\<close>

subsection \<open>C10: sample names without an underscore share the group of the empty name\<close>

text \<open>
  C10. A SampleID that contains no underscore has the empty string as its ReplicateGroup.
  So the underscore-free SampleIDs of a row all lie in the group of the empty name, and such a
  SampleID passes the replicate threshold exactly when that group has at least
  \<open>min_replicates\<close> distinct members in the row: with \<open>min_replicates = 2\<close>, the distinct
  SampleIDs A and B pass together.
\<close>

theorem underscore_free_samples_pooled:
  "(CHR ''_'' \<notin> set sid \<longrightarrow> group_id sid = []) \<and>
   (s \<in> sample_id ` set ns \<and> CHR ''_'' \<notin> set s \<longrightarrow>
      (s \<in> set (pass_rep_thresh mr (build_group_dict ns)) \<longleftrightarrow>
         mr \<le> int (card {t \<in> sample_id ` set ns. group_id t = []}))) \<and>
   {t \<in> sample_id ` set ns. CHR ''_'' \<notin> set t} \<subseteq> {t \<in> sample_id ` set ns. group_id t = []} \<and>
   pass_rep_thresh 2 (build_group_dict [''A'', ''B'']) = [''A'', ''B'']"
proof (intro conjI impI)
  show "CHR ''_'' \<notin> set sid \<Longrightarrow> group_id sid = []"
    by (rule group_id_no_underscore)
next
  assume h: "s \<in> sample_id ` set ns \<and> CHR ''_'' \<notin> set s"
  then have g: "group_id s = []" by (simp add: group_id_no_underscore)
  show "s \<in> set (pass_rep_thresh mr (build_group_dict ns)) \<longleftrightarrow>
         mr \<le> int (card {t \<in> sample_id ` set ns. group_id t = []})"
    using h g unfolding pass_rep_thresh_set by simp
next
  show "{t \<in> sample_id ` set ns. CHR ''_'' \<notin> set t} \<subseteq> {t \<in> sample_id ` set ns. group_id t = []}"
    by (auto simp: group_id_no_underscore)
next
  show "pass_rep_thresh 2 (build_group_dict [''A'', ''B'']) = [''A'', ''B'']"
    by code_simp
qed

theorem underscore_free_samples_pooled_witness:
  "group_id ''A'' = [] \<and>
   ''A'' \<in> set (pass_rep_thresh 2 (build_group_dict [''A.bed'', ''B_peak_1'', ''A'']))"
proof -
  have h1: "CHR ''_'' \<notin> set ''A''" by simp
  have h2: "''A'' \<in> sample_id ` set [''A.bed'', ''B_peak_1'', ''A'']" by code_simp
  have h3: "(2::int) \<le> int (card {t \<in> sample_id ` set [''A.bed'', ''B_peak_1'', ''A'']. group_id t = []})"
    by code_simp
  show ?thesis
    using underscore_free_samples_pooled[of "''A''" "''A''" "[''A.bed'', ''B_peak_1'', ''A'']" 2] h1 h2 h3
    by blast
qed

subsection \<open>C4: the order of the combination summary\<close>








subsection \<open>C5: Sample Discovery\<close>

lemma line_names_eq:
  "line_names line =
     (if 5 < length (lspl line) then Inr (py_split '','' (lspl line ! 5)) else Inl IndexError)"
  by (simp add: line_names_def get_def)

lemma all_sample_names_eq:
  "all_sample_names fin acc =
     (if \<forall>line \<in> set fin. 5 < length (lspl line)
      then Inr (acc \<union> (\<Union>line \<in> set fin. sample_id ` set (py_split '','' (lspl line ! 5))))
      else Inl IndexError)"
  by (induction fin arbitrary: acc) (auto simp: line_names_eq)

lemma sorted_set_eq:
  assumes "set_iteration iter" and "finite s"
  shows "sorted_set iter s = sorted_list_of_set s"
proof -
  have "set (iter s) = s" and "distinct (iter s)"
    using assms by (auto simp: set_iteration_def)
  then show ?thesis
    unfolding sorted_set_def by (metis sorted_list_of_set_sort_remdups distinct_remdups_id)
qed

lemma sample_discovery_eq:
  assumes "set_iteration iter"
  shows "sample_discovery iter fin =
     (if \<forall>line \<in> set fin. 5 < length (lspl line)
      then Inr (sorted_list_of_set
             (\<Union>line \<in> set fin. sample_id ` set (py_split '','' (lspl line ! 5))))
      else Inl IndexError)"
  unfolding sample_discovery_def all_sample_names_eq
  by (simp add: sorted_set_eq[OF assms])




lemma set_iteration_rev_sorted: "set_iteration (\<lambda>s. rev (sorted_list_of_set s))"
  by (simp add: set_iteration_def)





subsection \<open>Dictionaries of lists\<close>

lemma map_of_dict_append:
  "map_of (dict_append k v d) k' =
     (if k' = k then Some (lookup_list d k @ [v]) else map_of d k')"
  by (simp add: dict_append_def map_of_update_alist lookup_list_def)

lemma keys_dict_append: "fst ` set (dict_append k v d) = insert k (fst ` set d)"
  by (simp add: dict_append_def dom_update)

lemma distinct_dict_append: "distinct (map fst d) \<Longrightarrow> distinct (map fst (dict_append k v d))"
  by (simp add: dict_append_def distinct_update)

lemma lookup_dict_append:
  "lookup_list (dict_append k v d) k' = lookup_list d k' @ (if k' = k then [v] else [])"
  by (simp add: lookup_list_def map_of_dict_append)

lemma fold_dict_append_keys:
  "fst ` set (fold (\<lambda>i. dict_append (k i) (v i)) is d) = fst ` set d \<union> k ` set is"
  by (induction "is" arbitrary: d) (auto simp: keys_dict_append)

lemma fold_dict_append_distinct:
  "distinct (map fst d) \<Longrightarrow> distinct (map fst (fold (\<lambda>i. dict_append (k i) (v i)) is d))"
  by (induction "is" arbitrary: d) (auto simp: distinct_dict_append)

lemma fold_dict_append_lookup:
  "lookup_list (fold (\<lambda>i. dict_append (k i) (v i)) is d) key =
     lookup_list d key @ map v (filter (\<lambda>i. k i = key) is)"
  by (induction "is" arbitrary: d) (auto simp: lookup_dict_append)

lemma map_of_keys_lookup:
  "map_of d key = (if key \<in> fst ` set d then Some (lookup_list d key) else None)"
  by (auto simp: lookup_list_def map_of_eq_None_iff split: option.splits)

subsection \<open>The dictionaries of a row\<close>

lemma acc_step_eq:
  "acc_step sf r pass idx a =
     (if sample_id (names r ! idx) \<in> set pass
      then (if in_range r idx then Inr (acc_add sf r idx a) else Inl IndexError)
      else Inr a)"
  by (auto simp: acc_step_def Let_def get_def in_range_def acc_add_def)

lemma accumulate_eq:
  "accumulate sf r pass idxs a =
     (if \<forall>idx \<in> set (filter (\<lambda>idx. sample_id (names r ! idx) \<in> set pass) idxs). in_range r idx
      then Inr (fold (acc_add sf r) (filter (\<lambda>idx. sample_id (names r ! idx) \<in> set pass) idxs) a)
      else Inl IndexError)"
  by (induction idxs arbitrary: a) (auto simp: acc_step_eq)

lemma row_dicts_eq:
  "row_dicts sf mr r =
     (if \<forall>idx \<in> set (eligible mr r). in_range r idx
      then Inr (fold (acc_add sf r) (eligible mr r) acc_empty)
      else Inl IndexError)"
  unfolding row_dicts_def eligible_def by (rule accumulate_eq)

lemma fold_acc_add_fc:
  "fc_dict (fold (acc_add sf r) is a) =
     fold (\<lambda>i. dict_append (sample_id (names r ! i)) (sf (fcs r ! i))) is (fc_dict a)"
  by (induction "is" arbitrary: a) (auto simp: acc_add_def)

lemma fold_acc_add_qval:
  "qval_dict (fold (acc_add sf r) is a) =
     fold (\<lambda>i. dict_append (sample_id (names r ! i)) (sf (qvals r ! i))) is (qval_dict a)"
  by (induction "is" arbitrary: a) (auto simp: acc_add_def)

lemma fold_acc_add_pval:
  "pval_dict (fold (acc_add sf r) is a) =
     fold (\<lambda>i. dict_append (sample_id (names r ! i)) (sf (pvals r ! i))) is (pval_dict a)"
  by (induction "is" arbitrary: a) (auto simp: acc_add_def)

lemma fold_acc_add_start:
  "start_dict (fold (acc_add sf r) is a) =
     fold (\<lambda>i. dict_append (sample_id (names r ! i)) (str_int (starts r ! i))) is (start_dict a)"
  by (induction "is" arbitrary: a) (auto simp: acc_add_def)

lemma fold_acc_add_end:
  "end_dict (fold (acc_add sf r) is a) =
     fold (\<lambda>i. dict_append (sample_id (names r ! i)) (str_int (ends r ! i))) is (end_dict a)"
  by (induction "is" arbitrary: a) (auto simp: acc_add_def)

lemmas fold_acc_add_proj =
  fold_acc_add_fc fold_acc_add_qval fold_acc_add_pval fold_acc_add_start fold_acc_add_end

lemma pass_subset_names:
  "set (pass_rep_thresh mr (build_group_dict ns)) \<subseteq> sample_id ` set ns"
  unfolding pass_rep_thresh_set by blast

lemma eligible_samples:
  "(\<lambda>idx. sample_id (names r ! idx)) ` set (eligible mr r) =
     set (pass_rep_thresh mr (build_group_dict (names r)))"
proof (intro set_eqI iffI)
  fix s assume "s \<in> (\<lambda>idx. sample_id (names r ! idx)) ` set (eligible mr r)"
  then show "s \<in> set (pass_rep_thresh mr (build_group_dict (names r)))"
    by (auto simp: eligible_def)
next
  fix s assume p: "s \<in> set (pass_rep_thresh mr (build_group_dict (names r)))"
  then have "s \<in> sample_id ` set (names r)" using pass_subset_names by blast
  then obtain i where "i < length (names r)" and "s = sample_id (names r ! i)"
    by (auto simp: in_set_conv_nth)
  then show "s \<in> (\<lambda>idx. sample_id (names r ! idx)) ` set (eligible mr r)"
    using p by (auto simp: eligible_def intro!: image_eqI[of _ _ i])
qed

text \<open>The dictionaries that a row builds when no index is out of range.\<close>

lemma row_dicts_keys:
  assumes "row_dicts sf mr r = Inr a"
  shows "fst ` set (fc_dict a) = set (pass_rep_thresh mr (build_group_dict (names r)))"
    and "fst ` set (qval_dict a) = set (pass_rep_thresh mr (build_group_dict (names r)))"
    and "fst ` set (pval_dict a) = set (pass_rep_thresh mr (build_group_dict (names r)))"
    and "fst ` set (start_dict a) = set (pass_rep_thresh mr (build_group_dict (names r)))"
    and "fst ` set (end_dict a) = set (pass_rep_thresh mr (build_group_dict (names r)))"
    and "distinct (map fst (fc_dict a))"
proof -
  have a: "a = fold (acc_add sf r) (eligible mr r) acc_empty"
    using assms unfolding row_dicts_eq by (auto split: if_splits)
  show "fst ` set (fc_dict a) = set (pass_rep_thresh mr (build_group_dict (names r)))"
    unfolding a fold_acc_add_proj fold_dict_append_keys eligible_samples
    by (simp add: acc_empty_def)
  show "fst ` set (qval_dict a) = set (pass_rep_thresh mr (build_group_dict (names r)))"
    unfolding a fold_acc_add_proj fold_dict_append_keys eligible_samples
    by (simp add: acc_empty_def)
  show "fst ` set (pval_dict a) = set (pass_rep_thresh mr (build_group_dict (names r)))"
    unfolding a fold_acc_add_proj fold_dict_append_keys eligible_samples
    by (simp add: acc_empty_def)
  show "fst ` set (start_dict a) = set (pass_rep_thresh mr (build_group_dict (names r)))"
    unfolding a fold_acc_add_proj fold_dict_append_keys eligible_samples
    by (simp add: acc_empty_def)
  show "fst ` set (end_dict a) = set (pass_rep_thresh mr (build_group_dict (names r)))"
    unfolding a fold_acc_add_proj fold_dict_append_keys eligible_samples
    by (simp add: acc_empty_def)
  show "distinct (map fst (fc_dict a))"
    unfolding a fold_acc_add_proj by (rule fold_dict_append_distinct) (simp add: acc_empty_def)
qed

lemma row_dicts_lookup:
  assumes "row_dicts sf mr r = Inr a"
  shows "lookup_list (fc_dict a) s = sample_values mr r (\<lambda>i. sf (fcs r ! i)) s"
    and "lookup_list (qval_dict a) s = sample_values mr r (\<lambda>i. sf (qvals r ! i)) s"
    and "lookup_list (pval_dict a) s = sample_values mr r (\<lambda>i. sf (pvals r ! i)) s"
    and "lookup_list (start_dict a) s = sample_values mr r (\<lambda>i. str_int (starts r ! i)) s"
    and "lookup_list (end_dict a) s = sample_values mr r (\<lambda>i. str_int (ends r ! i)) s"
proof -
  have a: "a = fold (acc_add sf r) (eligible mr r) acc_empty"
    using assms unfolding row_dicts_eq by (auto split: if_splits)
  have e: "lookup_list [] s = []" by (simp add: lookup_list_def)
  show "lookup_list (fc_dict a) s = sample_values mr r (\<lambda>i. sf (fcs r ! i)) s"
    unfolding a fold_acc_add_proj fold_dict_append_lookup sample_values_def
    by (simp add: acc_empty_def e)
  show "lookup_list (qval_dict a) s = sample_values mr r (\<lambda>i. sf (qvals r ! i)) s"
    unfolding a fold_acc_add_proj fold_dict_append_lookup sample_values_def
    by (simp add: acc_empty_def e)
  show "lookup_list (pval_dict a) s = sample_values mr r (\<lambda>i. sf (pvals r ! i)) s"
    unfolding a fold_acc_add_proj fold_dict_append_lookup sample_values_def
    by (simp add: acc_empty_def e)
  show "lookup_list (start_dict a) s = sample_values mr r (\<lambda>i. str_int (starts r ! i)) s"
    unfolding a fold_acc_add_proj fold_dict_append_lookup sample_values_def
    by (simp add: acc_empty_def e)
  show "lookup_list (end_dict a) s = sample_values mr r (\<lambda>i. str_int (ends r ! i)) s"
    unfolding a fold_acc_add_proj fold_dict_append_lookup sample_values_def
    by (simp add: acc_empty_def e)
qed

lemma samples_of_eq:
  assumes "row_dicts sf mr r = Inr a"
  shows "samples_of a = sorted_list_of_set (set (pass_rep_thresh mr (build_group_dict (names r))))"
proof -
  have "set (map fst (fc_dict a)) = set (pass_rep_thresh mr (build_group_dict (names r)))"
    using row_dicts_keys(1)[OF assms] by simp
  moreover have "distinct (map fst (fc_dict a))" by (rule row_dicts_keys(6)[OF assms])
  ultimately show ?thesis
    unfolding samples_of_def by (metis sorted_list_of_set_sort_remdups distinct_remdups_id)
qed

lemma samples_of_props:
  assumes "row_dicts sf mr r = Inr a"
  shows "set (samples_of a) = set (pass_rep_thresh mr (build_group_dict (names r)))"
    and "distinct (samples_of a)" and "sorted (samples_of a)"
  unfolding samples_of_eq[OF assms] by simp_all

subsection \<open>C2: the replicate threshold\<close>

lemma replicate_threshold_dicts:
  assumes "row_dicts sf mr r = Inr a"
  shows "fst ` set (build_group_dict (names r)) = group_id ` sample_id ` set (names r) \<and>
    (\<forall>(gid, sids) \<in> set (build_group_dict (names r)).
       distinct sids \<and> set sids = {s \<in> sample_id ` set (names r). group_id s = gid} \<and>
       (mr \<le> int (length sids) \<longleftrightarrow>
          mr \<le> int (card {s \<in> sample_id ` set (names r). group_id s = gid}))) \<and>
    set (pass_rep_thresh mr (build_group_dict (names r))) =
      (\<Union>(gid, sids) \<in> set (build_group_dict (names r)).
         if mr \<le> int (length sids) then set sids else {}) \<and>
    (\<forall>s. s \<in> set (pass_rep_thresh mr (build_group_dict (names r))) \<longleftrightarrow>
       s \<in> sample_id ` set (names r) \<and>
       mr \<le> int (card {t \<in> sample_id ` set (names r). group_id t = group_id s})) \<and>
    (\<forall>s. map_of (fc_dict a) s =
       (if s \<in> set (pass_rep_thresh mr (build_group_dict (names r)))
        then Some (map (\<lambda>i. sf (fcs r ! i))
               (filter (\<lambda>i. sample_id (names r ! i) = s) [0..<length (names r)]))
        else None)) \<and>
    (\<forall>s. map_of (qval_dict a) s =
       (if s \<in> set (pass_rep_thresh mr (build_group_dict (names r)))
        then Some (map (\<lambda>i. sf (qvals r ! i))
               (filter (\<lambda>i. sample_id (names r ! i) = s) [0..<length (names r)]))
        else None)) \<and>
    (\<forall>s. map_of (pval_dict a) s =
       (if s \<in> set (pass_rep_thresh mr (build_group_dict (names r)))
        then Some (map (\<lambda>i. sf (pvals r ! i))
               (filter (\<lambda>i. sample_id (names r ! i) = s) [0..<length (names r)]))
        else None)) \<and>
    (\<forall>s. map_of (start_dict a) s =
       (if s \<in> set (pass_rep_thresh mr (build_group_dict (names r)))
        then Some (map (\<lambda>i. str_int (starts r ! i))
               (filter (\<lambda>i. sample_id (names r ! i) = s) [0..<length (names r)]))
        else None)) \<and>
    (\<forall>s. map_of (end_dict a) s =
       (if s \<in> set (pass_rep_thresh mr (build_group_dict (names r)))
        then Some (map (\<lambda>i. str_int (ends r ! i))
               (filter (\<lambda>i. sample_id (names r ! i) = s) [0..<length (names r)]))
        else None))"
proof -
  let ?pass = "pass_rep_thresh mr (build_group_dict (names r))"
  have k: "fst ` set (build_group_dict (names r)) = group_id ` sample_id ` set (names r)"
    by (rule build_group_dict_keys)
  have g: "\<forall>(gid, sids) \<in> set (build_group_dict (names r)).
       distinct sids \<and> set sids = {s \<in> sample_id ` set (names r). group_id s = gid} \<and>
       (mr \<le> int (length sids) \<longleftrightarrow>
          mr \<le> int (card {s \<in> sample_id ` set (names r). group_id s = gid}))"
  proof (clarify)
    fix gid sids assume e: "(gid, sids) \<in> set (build_group_dict (names r))"
    from build_group_dict_entry[OF e] have d: "distinct sids"
      and s: "set sids = {s \<in> sample_id ` set (names r). group_id s = gid}" by auto
    have "length sids = card (set sids)" using d by (simp add: distinct_card)
    then show "distinct sids \<and> set sids = {s \<in> sample_id ` set (names r). group_id s = gid} \<and>
       (mr \<le> int (length sids) \<longleftrightarrow>
          mr \<le> int (card {s \<in> sample_id ` set (names r). group_id s = gid}))"
      using d s by simp
  qed
  have p: "set ?pass = (\<Union>(gid, sids) \<in> set (build_group_dict (names r)).
         if mr \<le> int (length sids) then set sids else {})"
    unfolding pass_rep_thresh_def fold_pass_set by simp
  have q: "\<forall>s. s \<in> set ?pass \<longleftrightarrow>
       s \<in> sample_id ` set (names r) \<and>
       mr \<le> int (card {t \<in> sample_id ` set (names r). group_id t = group_id s})"
    unfolding pass_rep_thresh_set by blast
  have f: "filter (\<lambda>i. sample_id (names r ! i) = s) (eligible mr r) =
           filter (\<lambda>i. sample_id (names r ! i) = s) [0..<length (names r)]"
    if "s \<in> set ?pass" for s
    unfolding eligible_def filter_filter using that by (intro filter_cong) auto
  have m: "map_of d s = (if s \<in> set ?pass
        then Some (map v (filter (\<lambda>i. sample_id (names r ! i) = s) [0..<length (names r)]))
        else None)"
    if "fst ` set d = set ?pass" and "lookup_list d s = sample_values mr r v s" for d v s
    using that f[of s] by (simp add: map_of_keys_lookup sample_values_def)
  note ks = row_dicts_keys[OF assms] and ls = row_dicts_lookup[OF assms]
  show ?thesis
  proof (intro conjI allI)
    show "fst ` set (build_group_dict (names r)) = group_id ` sample_id ` set (names r)"
      by (rule k)
    show "\<forall>(gid, sids) \<in> set (build_group_dict (names r)).
       distinct sids \<and> set sids = {s \<in> sample_id ` set (names r). group_id s = gid} \<and>
       (mr \<le> int (length sids) \<longleftrightarrow>
          mr \<le> int (card {s \<in> sample_id ` set (names r). group_id s = gid}))"
      by (rule g)
    show "set ?pass = (\<Union>(gid, sids) \<in> set (build_group_dict (names r)).
         if mr \<le> int (length sids) then set sids else {})"
      by (rule p)
  next
    fix s
    show "s \<in> set ?pass \<longleftrightarrow>
       s \<in> sample_id ` set (names r) \<and>
       mr \<le> int (card {t \<in> sample_id ` set (names r). group_id t = group_id s})"
      using q by (rule spec)
  next
    fix s show "map_of (fc_dict a) s =
       (if s \<in> set ?pass
        then Some (map (\<lambda>i. sf (fcs r ! i))
               (filter (\<lambda>i. sample_id (names r ! i) = s) [0..<length (names r)]))
        else None)" by (rule m[OF ks(1) ls(1)])
  next
    fix s show "map_of (qval_dict a) s =
       (if s \<in> set ?pass
        then Some (map (\<lambda>i. sf (qvals r ! i))
               (filter (\<lambda>i. sample_id (names r ! i) = s) [0..<length (names r)]))
        else None)" by (rule m[OF ks(2) ls(2)])
  next
    fix s show "map_of (pval_dict a) s =
       (if s \<in> set ?pass
        then Some (map (\<lambda>i. sf (pvals r ! i))
               (filter (\<lambda>i. sample_id (names r ! i) = s) [0..<length (names r)]))
        else None)" by (rule m[OF ks(3) ls(3)])
  next
    fix s show "map_of (start_dict a) s =
       (if s \<in> set ?pass
        then Some (map (\<lambda>i. str_int (starts r ! i))
               (filter (\<lambda>i. sample_id (names r ! i) = s) [0..<length (names r)]))
        else None)" by (rule m[OF ks(4) ls(4)])
  next
    fix s show "map_of (end_dict a) s =
       (if s \<in> set ?pass
        then Some (map (\<lambda>i. str_int (ends r ! i))
               (filter (\<lambda>i. sample_id (names r ! i) = s) [0..<length (names r)]))
        else None)" by (rule m[OF ks(5) ls(5)])
  qed
qed

text \<open>
  C2. The ReplicateGroup of a SampleID is the SampleID with its last \<open>_\<close>-delimited token and
  the underscore before it dropped, and the empty string when the SampleID has no underscore.
  For a row whose dictionaries are built without an exception: the keys of
  \<^verbatim>\<open>group_dict\<close> are the ReplicateGroups of the row's SampleIDs, and the list under a group
  holds the distinct SampleIDs of the row in that group, each once, so that the test
  \<^verbatim>\<open>len(sids) >= min_replicates\<close> of line 141 compares the number of distinct SampleIDs
  observed in the group with the threshold. A SampleID is in \<^verbatim>\<open>pass_rep_thresh_list\<close> iff it
  belongs to a group that passes. Each of the five dictionaries has an entry for a SampleID
  iff the SampleID belongs to a passing group, and the entry holds the values of all the
  sources of that SampleID, in source order: a source's values are accumulated iff its
  SampleID belongs to a passing group.
\<close>

theorem replicate_threshold_iff:
  assumes "row_dicts sf mr r = Inr a"
  shows "(\<forall>g t. CHR ''_'' \<notin> set t \<longrightarrow> group_id (g @ ''_'' @ t) = g) \<and>
    (\<forall>sid. CHR ''_'' \<notin> set sid \<longrightarrow> group_id sid = []) \<and>
    fst ` set (build_group_dict (names r)) = group_id ` sample_id ` set (names r) \<and>
    (\<forall>(gid, sids) \<in> set (build_group_dict (names r)).
       distinct sids \<and> set sids = {s \<in> sample_id ` set (names r). group_id s = gid} \<and>
       (mr \<le> int (length sids) \<longleftrightarrow>
          mr \<le> int (card {s \<in> sample_id ` set (names r). group_id s = gid}))) \<and>
    set (pass_rep_thresh mr (build_group_dict (names r))) =
      (\<Union>(gid, sids) \<in> set (build_group_dict (names r)).
         if mr \<le> int (length sids) then set sids else {}) \<and>
    (\<forall>s. s \<in> set (pass_rep_thresh mr (build_group_dict (names r))) \<longleftrightarrow>
       s \<in> sample_id ` set (names r) \<and>
       mr \<le> int (card {t \<in> sample_id ` set (names r). group_id t = group_id s})) \<and>
    (\<forall>s. map_of (fc_dict a) s =
       (if s \<in> set (pass_rep_thresh mr (build_group_dict (names r)))
        then Some (map (\<lambda>i. sf (fcs r ! i))
               (filter (\<lambda>i. sample_id (names r ! i) = s) [0..<length (names r)]))
        else None)) \<and>
    (\<forall>s. map_of (qval_dict a) s =
       (if s \<in> set (pass_rep_thresh mr (build_group_dict (names r)))
        then Some (map (\<lambda>i. sf (qvals r ! i))
               (filter (\<lambda>i. sample_id (names r ! i) = s) [0..<length (names r)]))
        else None)) \<and>
    (\<forall>s. map_of (pval_dict a) s =
       (if s \<in> set (pass_rep_thresh mr (build_group_dict (names r)))
        then Some (map (\<lambda>i. sf (pvals r ! i))
               (filter (\<lambda>i. sample_id (names r ! i) = s) [0..<length (names r)]))
        else None)) \<and>
    (\<forall>s. map_of (start_dict a) s =
       (if s \<in> set (pass_rep_thresh mr (build_group_dict (names r)))
        then Some (map (\<lambda>i. str_int (starts r ! i))
               (filter (\<lambda>i. sample_id (names r ! i) = s) [0..<length (names r)]))
        else None)) \<and>
    (\<forall>s. map_of (end_dict a) s =
       (if s \<in> set (pass_rep_thresh mr (build_group_dict (names r)))
        then Some (map (\<lambda>i. str_int (ends r ! i))
               (filter (\<lambda>i. sample_id (names r ! i) = s) [0..<length (names r)]))
        else None))"
proof -
  have g1: "\<forall>g t. CHR ''_'' \<notin> set t \<longrightarrow> group_id (g @ ''_'' @ t) = g"
    using group_id_drop_last by blast
  have g2: "\<forall>sid. CHR ''_'' \<notin> set sid \<longrightarrow> group_id sid = []"
    using group_id_no_underscore by blast
  note old = replicate_threshold_dicts[OF assms]
  show ?thesis by (rule conjI[OF g1 conjI[OF g2 old]])
qed

theorem replicate_threshold_iff_witness:
  "row_dicts str_float_int 2
     \<lparr>chrom_id = ''chr1'', mstart = 100, mend = 500, starts = [100, 200, 150],
      ends = [300, 500, 400], names = [''x_y_1_peak_1'', ''x_z_1_peak_1'', ''x_y_2_peak_1''],
      fcs = [2, 3, 1], pvals = [5, 6, 4], qvals = [7, 8, 9]\<rparr>
   = Inr \<lparr>fc_dict = [(''x_y_1'', [''2.0'']), (''x_y_2'', [''1.0''])],
        qval_dict = [(''x_y_1'', [''7.0'']), (''x_y_2'', [''9.0''])],
        pval_dict = [(''x_y_1'', [''5.0'']), (''x_y_2'', [''4.0''])],
        start_dict = [(''x_y_1'', [''100'']), (''x_y_2'', [''150''])],
        end_dict = [(''x_y_1'', [''300'']), (''x_y_2'', [''400''])]\<rparr> \<and>
   group_id ''x_y_1'' = ''x_y'' \<and> group_id ''x_z_1'' = ''x_z'' \<and>
   ''x_y_1'' \<in> set (pass_rep_thresh 2
      (build_group_dict [''x_y_1_peak_1'', ''x_z_1_peak_1'', ''x_y_2_peak_1''])) \<and>
   ''x_z_1'' \<notin> set (pass_rep_thresh 2
      (build_group_dict [''x_y_1_peak_1'', ''x_z_1_peak_1'', ''x_y_2_peak_1'']))"
proof -
  let ?r = "\<lparr>chrom_id = ''chr1'', mstart = 100, mend = 500, starts = [100, 200, 150],
      ends = [300, 500, 400], names = [''x_y_1_peak_1'', ''x_z_1_peak_1'', ''x_y_2_peak_1''],
      fcs = [2::int, 3, 1], pvals = [5, 6, 4], qvals = [7, 8, 9]\<rparr>"
  let ?a = "\<lparr>fc_dict = [(''x_y_1'', [''2.0'']), (''x_y_2'', [''1.0''])],
        qval_dict = [(''x_y_1'', [''7.0'']), (''x_y_2'', [''9.0''])],
        pval_dict = [(''x_y_1'', [''5.0'']), (''x_y_2'', [''4.0''])],
        start_dict = [(''x_y_1'', [''100'']), (''x_y_2'', [''150''])],
        end_dict = [(''x_y_1'', [''300'']), (''x_y_2'', [''400''])]\<rparr>"
  have h: "row_dicts str_float_int 2 ?r = Inr ?a" by code_simp
  have n: "names ?r = [''x_y_1_peak_1'', ''x_z_1_peak_1'', ''x_y_2_peak_1'']" by simp
  have fa: "map_of (fc_dict ?a) ''x_y_1'' \<noteq> None" by simp
  have fb: "map_of (fc_dict ?a) ''x_z_1'' = None" by simp
  note t = replicate_threshold_iff[OF h]
  note g = t[THEN conjunct1]
  from g have "CHR ''_'' \<notin> set ''1'' \<longrightarrow> group_id (''x_y'' @ ''_'' @ ''1'') = ''x_y''"
    by blast
  then have g1: "group_id ''x_y_1'' = ''x_y''" by simp
  from g have "CHR ''_'' \<notin> set ''1'' \<longrightarrow> group_id (''x_z'' @ ''_'' @ ''1'') = ''x_z''"
    by blast
  then have g2: "group_id ''x_z_1'' = ''x_z''" by simp
  note fc = t[THEN conjunct2, THEN conjunct2, THEN conjunct2, THEN conjunct2, THEN conjunct2,
      THEN conjunct2, THEN conjunct1]
  from fc have m: "map_of (fc_dict ?a) s =
       (if s \<in> set (pass_rep_thresh 2 (build_group_dict (names ?r)))
        then Some (map (\<lambda>i. str_float_int (fcs ?r ! i))
               (filter (\<lambda>i. sample_id (names ?r ! i) = s) [0..<length (names ?r)]))
        else None)" for s by (rule spec)
  have "''x_y_1'' \<in> set (pass_rep_thresh 2 (build_group_dict (names ?r)))"
    using m[of "''x_y_1''"] fa by (metis)
  moreover have "''x_z_1'' \<notin> set (pass_rep_thresh 2 (build_group_dict (names ?r)))"
    using m[of "''x_z_1''"] fb by (metis option.distinct(1))
  ultimately show ?thesis using h g1 g2 unfolding n by blast
qed

subsection \<open>The output row\<close>

lemma value_list_eq:
  "set samples \<subseteq> fst ` set d \<Longrightarrow>
     value_list d samples sample_name_list = Inr (value_col d samples sample_name_list)"
proof (induction sample_name_list)
  case Nil
  then show ?case by (simp add: value_list_def value_col_def)
next
  case (Cons x xs)
  have "x \<in> set samples \<Longrightarrow> map_of d x = Some (lookup_list d x)"
    using Cons.prems by (auto simp: map_of_keys_lookup)
  then show ?case using Cons by (auto simp: value_list_def value_col_def)
qed

lemma row_olist_eq:
  assumes "row_dicts sf mr r = Inr a"
  shows "row_olist sample_name_list n r a =
     (if samples_of a = [] then Inr None else Inr (Some (row_fields sample_name_list n r a)))"
proof -
  note ks = row_dicts_keys[OF assms] and sp = samples_of_props(1)[OF assms]
  have "value_list (fc_dict a) (samples_of a) sample_name_list =
          Inr (value_col (fc_dict a) (samples_of a) sample_name_list)"
    and "value_list (qval_dict a) (samples_of a) sample_name_list =
          Inr (value_col (qval_dict a) (samples_of a) sample_name_list)"
    and "value_list (pval_dict a) (samples_of a) sample_name_list =
          Inr (value_col (pval_dict a) (samples_of a) sample_name_list)"
    and "value_list (start_dict a) (samples_of a) sample_name_list =
          Inr (value_col (start_dict a) (samples_of a) sample_name_list)"
    and "value_list (end_dict a) (samples_of a) sample_name_list =
          Inr (value_col (end_dict a) (samples_of a) sample_name_list)"
    by (rule value_list_eq, simp add: ks sp)+
  then show ?thesis
    by (simp add: row_olist_def Let_def row_fields_def)
qed

lemma expand_line_eq:
  assumes "parse_row pint pf line = Inr r"
  shows "expand_line pint pf sf snl mr s line =
     (if \<forall>idx \<in> set (eligible mr r). in_range r idx
      then (if samples_of (fold (acc_add sf r) (eligible mr r) acc_empty) = [] then Inr s
            else Inr (emit snl r (fold (acc_add sf r) (eligible mr r) acc_empty) s))
      else Inl IndexError)"
proof (cases "\<forall>idx \<in> set (eligible mr r). in_range r idx")
  case True
  then have rd: "row_dicts sf mr r = Inr (fold (acc_add sf r) (eligible mr r) acc_empty)"
    by (simp add: row_dicts_eq)
  show ?thesis
    using True by (simp add: expand_line_def assms rd row_olist_eq[OF rd] emit_def)
next
  case False
  then have "row_dicts sf mr r = Inl IndexError" by (simp add: row_dicts_eq)
  then show ?thesis using False by (simp add: expand_line_def assms)
qed

lemma expand_line_parse_error:
  "parse_row pint pf line = Inl e \<Longrightarrow> expand_line pint pf sf snl mr s line = Inl e"
  by (simp add: expand_line_def)

lemma expand_line_Inr:
  assumes "expand_line pint pf sf snl mr s line = Inr s'"
  obtains r a where "parse_row pint pf line = Inr r" and "row_dicts sf mr r = Inr a"
    and "s' = (if samples_of a = [] then s else emit snl r a s)"
proof -
  from assms obtain r where p: "parse_row pint pf line = Inr r"
    by (cases "parse_row pint pf line") (auto simp: expand_line_def)
  let ?a = "fold (acc_add sf r) (eligible mr r) acc_empty"
  from assms have ok: "\<forall>idx \<in> set (eligible mr r). in_range r idx"
    unfolding expand_line_eq[OF p] by (auto split: if_splits)
  then have rd: "row_dicts sf mr r = Inr ?a" by (simp add: row_dicts_eq)
  have "s' = (if samples_of ?a = [] then s else emit snl r ?a s)"
    using assms ok unfolding expand_line_eq[OF p] by (auto split: if_splits)
  with p rd show ?thesis by (rule that)
qed

lemma expand_lines_append:
  "expand_lines pint pf sf snl mr s (pre @ post) =
     (case expand_lines pint pf sf snl mr s pre of
        (s', None) \<Rightarrow> expand_lines pint pf sf snl mr s' post
      | (s', Some e) \<Rightarrow> (s', Some e))"
  by (induction pre arbitrary: s) (auto split: sum.splits)

text \<open>An invariant of the state that every line preserves holds after the loop.\<close>

lemma expand_lines_invariant:
  assumes "I s"
    and "\<And>s line s'. I s \<Longrightarrow> line \<in> set fin \<Longrightarrow>
           expand_line pint pf sf snl mr s line = Inr s' \<Longrightarrow> I s'"
  shows "I (fst (expand_lines pint pf sf snl mr s fin))"
  using assms
proof (induction fin arbitrary: s)
  case Nil
  then show ?case by simp
next
  case (Cons line fin)
  show ?case
  proof (cases "expand_line pint pf sf snl mr s line")
    case (Inl e)
    then show ?thesis using Cons.prems(1) by simp
  next
    case (Inr s')
    have "I s'" using Cons.prems(2)[OF Cons.prems(1) _ Inr] by simp
    then have "I (fst (expand_lines pint pf sf snl mr s' fin))"
      by (rule Cons.IH) (use Cons.prems(2) in auto)
    then show ?thesis using Inr by simp
  qed
qed

subsection \<open>Parsing a line\<close>

lemma get_eq_Inr: "get xs i = Inr x \<longleftrightarrow> i < length xs \<and> x = xs ! i"
  by (auto simp: get_def)

lemma parse_row_fields:
  assumes "parse_row pint pf line = Inr r"
  shows "10 < length (lspl line)" and "chrom_id r = lspl line ! 0"
    and "names r = py_split '','' (lspl line ! 5)"
  using assms unfolding parse_row_def Let_def bind_err_eq_Inr get_eq_Inr
  by auto

subsection \<open>C1: rows whose sequences differ in length\<close>

text \<open>
  C1, amended. The source has no check of the lengths: the only failure is the IndexError of
  an index of lines 155 to 167. For a row that parses, processing raises exactly when some
  source whose SampleID belongs to a passing group has an index at or beyond the length of the
  fold-change, q-value, p-value, start or end sequence, and the exception is IndexError. The
  failure is fatal: the loop stops with the state reached before the row, so no line is
  written for this row or for a later one, and the run ends without writing the
  \<^verbatim>\<open>.intersect.txt\<close> file. A row whose name sequence is no longer than the other five is
  processed without an exception, whatever the lengths.
\<close>

theorem mismatched_lengths_failure:
  assumes "parse_row pint pf line = Inr r"
  shows "(expand_line pint pf sf snl mr s line = Inl IndexError \<longleftrightarrow>
            (\<exists>idx < length (names r).
               sample_id (names r ! idx) \<in> set (pass_rep_thresh mr (build_group_dict (names r))) \<and>
               \<not> in_range r idx)) \<and>
         (\<forall>e. expand_line pint pf sf snl mr s line = Inl e \<longrightarrow> e = IndexError) \<and>
         (\<forall>e s0 pre post.
            expand_lines pint pf sf snl mr s0 pre = (s, None) \<and>
            expand_line pint pf sf snl mr s line = Inl e \<longrightarrow>
            expand_lines pint pf sf snl mr s0 (pre @ line # post) = (s, Some e)) \<and>
         (\<forall>e iter pre post.
            sample_discovery iter (pre @ line # post) = Inr snl \<and>
            expand_lines pint pf sf snl mr state_init pre = (s, None) \<and>
            expand_line pint pf sf snl mr s line = Inl e \<longrightarrow>
            macs2_merged_expand pint pf sf iter (pre @ line # post) mr =
              \<lparr>primary = Some (map write_line (ofields snl # fout s)), secondary = None,
               raised = Some e\<rparr>) \<and>
         (length (names r) \<le> length (fcs r) \<and> length (names r) \<le> length (qvals r) \<and>
          length (names r) \<le> length (pvals r) \<and> length (names r) \<le> length (starts r) \<and>
          length (names r) \<le> length (ends r) \<longrightarrow>
            (\<exists>s'. expand_line pint pf sf snl mr s line = Inr s'))"
proof -
  let ?bad = "\<exists>idx < length (names r).
               sample_id (names r ! idx) \<in> set (pass_rep_thresh mr (build_group_dict (names r))) \<and>
               \<not> in_range r idx"
  have bad: "?bad \<longleftrightarrow> \<not> (\<forall>idx \<in> set (eligible mr r). in_range r idx)"
    by (auto simp: eligible_def)
  note el = expand_line_eq[OF assms, of sf snl mr s]
  have a: "expand_line pint pf sf snl mr s line = Inl IndexError \<longleftrightarrow> ?bad"
    unfolding bad el by simp
  have b: "\<forall>e. expand_line pint pf sf snl mr s line = Inl e \<longrightarrow> e = IndexError"
    unfolding el by (simp split: if_splits)
  have c: "expand_lines pint pf sf snl mr s0 (pre @ line # post) = (s, Some e)"
    if "expand_lines pint pf sf snl mr s0 pre = (s, None) \<and> expand_line pint pf sf snl mr s line = Inl e"
    for e s0 pre post
    using that by (simp add: expand_lines_append)
  have d: "macs2_merged_expand pint pf sf iter (pre @ line # post) mr =
              \<lparr>primary = Some (map write_line (ofields snl # fout s)), secondary = None,
               raised = Some e\<rparr>"
    if "sample_discovery iter (pre @ line # post) = Inr snl \<and>
        expand_lines pint pf sf snl mr state_init pre = (s, None) \<and>
        expand_line pint pf sf snl mr s line = Inl e"
    for e iter pre post
    using that c[of state_init pre e post] by (simp add: macs2_merged_expand_def)
  have e: "\<exists>s'. expand_line pint pf sf snl mr s line = Inr s'"
    if "length (names r) \<le> length (fcs r) \<and> length (names r) \<le> length (qvals r) \<and>
          length (names r) \<le> length (pvals r) \<and> length (names r) \<le> length (starts r) \<and>
          length (names r) \<le> length (ends r)"
  proof -
    have "\<forall>idx \<in> set (eligible mr r). in_range r idx"
      using that by (auto simp: eligible_def in_range_def)
    then show ?thesis unfolding el by simp
  qed
  show ?thesis using a b c d e by blast
qed

theorem mismatched_lengths_failure_witness:
  "parse_row int_ascii float_int
     (write_line [''chr1'', ''100'', ''500'', ''100,200'', ''300,500'',
        ''A_rep1_peak_1,A_rep2_peak_1'', ''.,.'', ''0,0'', ''2'', ''5,6'', ''7,8''])
   = Inr \<lparr>chrom_id = ''chr1'', mstart = 100, mend = 500, starts = [100, 200],
        ends = [300, 500], names = [''A_rep1_peak_1'', ''A_rep2_peak_1''], fcs = [2],
        pvals = [5, 6], qvals = [7, 8]\<rparr> \<and>
   expand_line int_ascii float_int str_float_int [''A_rep1'', ''A_rep2''] 1 state_init
     (write_line [''chr1'', ''100'', ''500'', ''100,200'', ''300,500'',
        ''A_rep1_peak_1,A_rep2_peak_1'', ''.,.'', ''0,0'', ''2'', ''5,6'', ''7,8''])
   = Inl IndexError"
proof -
  let ?l = "write_line [''chr1'', ''100'', ''500'', ''100,200'', ''300,500'',
        ''A_rep1_peak_1,A_rep2_peak_1'', ''.,.'', ''0,0'', ''2'', ''5,6'', ''7,8'']"
  let ?r = "\<lparr>chrom_id = ''chr1'', mstart = 100, mend = 500, starts = [100, 200],
        ends = [300, 500], names = [''A_rep1_peak_1'', ''A_rep2_peak_1''], fcs = [2::int],
        pvals = [5, 6], qvals = [7, 8]\<rparr>"
  have h: "parse_row int_ascii float_int ?l = Inr ?r" by code_simp
  have i: "1 < length (names ?r) \<and>
      sample_id (names ?r ! 1) \<in> set (pass_rep_thresh 1 (build_group_dict (names ?r))) \<and>
      \<not> in_range ?r 1" by code_simp
  then have "\<exists>idx < length (names ?r).
      sample_id (names ?r ! idx) \<in> set (pass_rep_thresh 1 (build_group_dict (names ?r))) \<and>
      \<not> in_range ?r idx" by blast
  then have "expand_line int_ascii float_int str_float_int [''A_rep1'', ''A_rep2''] 1 state_init ?l
      = Inl IndexError"
    using mismatched_lengths_failure[OF h, of str_float_int "[''A_rep1'', ''A_rep2'']" 1 state_init]
    by blast
  then show ?thesis using h by blast
qed

text \<open>
  C1 as stated fails: a row with one name, one fold-change, p-value and q-value but two
  starts and two ends is processed and written, and the run completes.
\<close>

theorem mismatched_lengths_counterexample:
  "parse_row int_ascii float_int
     (write_line [''chr1'', ''100'', ''500'', ''100,200'', ''300,500'', ''A_rep1_peak_1'', ''.'',
        ''0'', ''2'', ''5'', ''7''])
   = Inr \<lparr>chrom_id = ''chr1'', mstart = 100, mend = 500, starts = [100, 200],
        ends = [300, 500], names = [''A_rep1_peak_1''], fcs = [2], pvals = [5],
        qvals = [7]\<rparr> \<and>
   length [100, 200 :: int] \<noteq> length [''A_rep1_peak_1''] \<and>
   macs2_merged_expand int_ascii float_int str_float_int sorted_list_of_set
     [write_line [''chr1'', ''100'', ''500'', ''100,200'', ''300,500'', ''A_rep1_peak_1'', ''.'',
        ''0'', ''2'', ''5'', ''7'']] 1
   = \<lparr>primary = Some
        [write_line [''chr'', ''start'', ''end'', ''interval_id'', ''num_peaks'', ''num_samples'',
           ''A_rep1.bool'', ''A_rep1.fc'', ''A_rep1.qval'', ''A_rep1.pval'', ''A_rep1.start'',
           ''A_rep1.end''],
         write_line [''chr1'', ''100'', ''500'', ''Interval_1'', ''1'', ''1'', ''TRUE'', ''2.0'',
           ''7.0'', ''5.0'', ''100'', ''300'']],
      secondary = Some [''A_rep1'' @ [TAB] @ ''1'' @ ''\<newline>''],
      raised = None\<rparr>"
  by code_simp

subsection \<open>Characters of pieces and of joined strings\<close>

lemma split_from_chars:
  "x \<in> set (split_from sep acc s) \<Longrightarrow> set x \<subseteq> set acc \<union> set s"
proof (induction sep acc s arbitrary: x rule: split_from.induct)
  case (1 sep acc)
  then show ?case by simp
next
  case (2 sep acc c cs)
  show ?case
  proof (cases "take (length sep) (c # cs) = sep")
    case True
    with 2 show ?thesis by (auto dest: in_set_dropD)
  next
    case False
    with 2 show ?thesis by auto
  qed
qed

lemma py_split_chars: "x \<in> set (py_split sep s) \<Longrightarrow> set x \<subseteq> set s"
  unfolding py_split_def using split_from_chars[of x sep "[]" s] by simp

lemma py_join_chars: "set (py_join sep xs) \<subseteq> set sep \<union> \<Union>(set ` set xs)"
  by (induction sep xs rule: py_join.induct) auto

lemma lspl_no_tab: "x \<in> set (lspl line) \<Longrightarrow> TAB \<notin> set x"
  unfolding lspl_def by (rule py_split_pieces_free)

subsection \<open>The sample names that Discovery returns\<close>

lemma sample_discovery_props:
  assumes "set_iteration iter" and "sample_discovery iter fin = Inr U"
  shows "sorted U" and "distinct U"
    and "set U = (\<Union>line \<in> set fin. sample_id ` set (py_split '','' (lspl line ! 5)))"
    and "\<forall>line \<in> set fin. 5 < length (lspl line)"
proof -
  let ?S = "\<Union>line \<in> set fin. sample_id ` set (py_split '','' (lspl line ! 5))"
  from assms(2) have ok: "\<forall>line \<in> set fin. 5 < length (lspl line)"
    and U: "U = sorted_list_of_set ?S"
    unfolding sample_discovery_eq[OF assms(1)] by (auto split: if_splits)
  have fin: "finite ?S" by simp
  show "sorted U" "distinct U" "set U = ?S" using fin unfolding U by simp_all
  show "\<forall>line \<in> set fin. 5 < length (lspl line)" by (rule ok)
qed

lemma sample_name_no_tab:
  assumes "set_iteration iter" and "sample_discovery iter fin = Inr U" and "x \<in> set U"
  shows "TAB \<notin> set x"
proof -
  from sample_discovery_props(3,4)[OF assms(1,2)] assms(3)
  obtain line name where l: "line \<in> set fin" and len: "5 < length (lspl line)"
    and n: "name \<in> set (py_split '','' (lspl line ! 5))" and x: "x = sample_id name"
    by auto
  have "lspl line ! 5 \<in> set (lspl line)" using len by simp
  then have "TAB \<notin> set (lspl line ! 5)" by (rule lspl_no_tab)
  then have "TAB \<notin> set name" using py_split_chars[OF n] by blast
  then show ?thesis unfolding x using set_sample_id[of name] by blast
qed

lemma row_samples_in_universe:
  assumes "set_iteration iter" and "sample_discovery iter fin = Inr U"
    and "line \<in> set fin" and "parse_row pint pf line = Inr r"
  shows "sample_id ` set (names r) \<subseteq> set U"
  using sample_discovery_props(3)[OF assms(1,2)] assms(3) parse_row_fields(3)[OF assms(4)]
  by auto

subsection \<open>The rows that the loop writes\<close>

lemma fout_emit: "fout (emit snl r a s) = fout s @ [row_fields snl (total_out_intervals s) r a]"
  by (simp add: emit_def)

lemma expand_lines_rows:
  assumes "\<forall>ol \<in> set (fout s). P ol"
    and "\<And>line r a n. line \<in> set fin \<Longrightarrow> parse_row pint pf line = Inr r \<Longrightarrow>
           row_dicts sf mr r = Inr a \<Longrightarrow> samples_of a \<noteq> [] \<Longrightarrow> P (row_fields snl n r a)"
  shows "\<forall>ol \<in> set (fout (fst (expand_lines pint pf sf snl mr s fin))). P ol"
proof (rule expand_lines_invariant[where I = "\<lambda>s. \<forall>ol \<in> set (fout s). P ol"])
  show "\<forall>ol \<in> set (fout s). P ol" by (rule assms(1))
next
  fix s line s'
  assume I: "\<forall>ol \<in> set (fout s). P ol" and l: "line \<in> set fin"
    and e: "expand_line pint pf sf snl mr s line = Inr s'"
  from e obtain r a where p: "parse_row pint pf line = Inr r" and rd: "row_dicts sf mr r = Inr a"
    and s': "s' = (if samples_of a = [] then s else emit snl r a s)"
    by (rule expand_line_Inr)
  show "\<forall>ol \<in> set (fout s'). P ol"
  proof (cases "samples_of a = []")
    case True
    then show ?thesis using I s' by simp
  next
    case False
    then show ?thesis using I s' assms(2)[OF l p rd False] by (simp add: fout_emit)
  qed
qed

lemma primary_eq:
  assumes "sample_discovery iter fin = Inr U"
  shows "primary (macs2_merged_expand pint pf sf iter fin mr) =
     Some (map write_line (ofields U # fout (fst (expand_lines pint pf sf U mr state_init fin))))"
  using assms by (auto simp: macs2_merged_expand_def split: prod.splits option.splits)

subsection \<open>The fields of a row\<close>

lemma length_bool_list: "length (bool_list samples snl) = length snl"
  by (simp add: bool_list_def)

lemma length_value_col: "length (value_col d samples snl) = length snl"
  by (simp add: value_col_def)

lemma length_row_fields: "length (row_fields snl n r a) = 6 + 6 * length snl"
  by (simp add: row_fields_def length_bool_list length_value_col)

lemma length_ofields: "length (ofields snl) = 6 + 6 * length snl"
  by (simp add: ofields_def)

lemma bool_list_no_tab: "f \<in> set (bool_list samples snl) \<Longrightarrow> TAB \<notin> set f"
  by (auto simp: bool_list_def)

lemma value_col_no_tab:
  assumes "\<forall>k. \<forall>y \<in> set (lookup_list d k). TAB \<notin> set y"
    and "f \<in> set (value_col d samples snl)"
  shows "TAB \<notin> set f"
proof -
  from assms(2) obtain x where "f = py_join '';'' (lookup_list d x) \<or> f = ''NA''"
    by (auto simp: value_col_def split: if_splits)
  then show ?thesis
  proof
    assume f: "f = py_join '';'' (lookup_list d x)"
    show ?thesis unfolding f using py_join_chars[of "'';''" "lookup_list d x"] assms(1) by auto
  next
    assume "f = ''NA''"
    then show ?thesis by simp
  qed
qed

lemma sample_values_no_tab:
  "\<forall>i. TAB \<notin> set (v i) \<Longrightarrow> \<forall>y \<in> set (sample_values mr r v k). TAB \<notin> set y"
  by (auto simp: sample_values_def)

lemma row_fields_no_tab:
  assumes "parse_row pint pf line = Inr r" and "row_dicts sf mr r = Inr a"
    and "\<forall>x. TAB \<notin> set (sf x)" and "f \<in> set (row_fields snl n r a)"
  shows "TAB \<notin> set f"
proof -
  note ls = row_dicts_lookup[OF assms(2)]
  have "lspl line ! 0 \<in> set (lspl line)"
    using parse_row_fields(1)[OF assms(1)] by (intro nth_mem) linarith
  then have c: "TAB \<notin> set (chrom_id r)"
    unfolding parse_row_fields(2)[OF assms(1)] by (rule lspl_no_tab)
  have d1: "\<forall>k. \<forall>y \<in> set (lookup_list (fc_dict a) k). TAB \<notin> set y"
    unfolding ls using assms(3) by (intro allI sample_values_no_tab) simp
  have d2: "\<forall>k. \<forall>y \<in> set (lookup_list (qval_dict a) k). TAB \<notin> set y"
    unfolding ls using assms(3) by (intro allI sample_values_no_tab) simp
  have d3: "\<forall>k. \<forall>y \<in> set (lookup_list (pval_dict a) k). TAB \<notin> set y"
    unfolding ls using assms(3) by (intro allI sample_values_no_tab) simp
  have d4: "\<forall>k. \<forall>y \<in> set (lookup_list (start_dict a) k). TAB \<notin> set y"
    unfolding ls by (intro allI sample_values_no_tab) (simp add: str_int_no_tab)
  have d5: "\<forall>k. \<forall>y \<in> set (lookup_list (end_dict a) k). TAB \<notin> set y"
    unfolding ls by (intro allI sample_values_no_tab) (simp add: str_int_no_tab)
  from assms(4) consider
      "f \<in> {chrom_id r, str_int (mstart r), str_int (mend r), ''Interval_'' @ str_int (n + 1),
             str_int (int (length (names r))), str_int (int (length (samples_of a)))}"
    | "f \<in> set (bool_list (samples_of a) snl)"
    | "f \<in> set (value_col (fc_dict a) (samples_of a) snl)"
    | "f \<in> set (value_col (qval_dict a) (samples_of a) snl)"
    | "f \<in> set (value_col (pval_dict a) (samples_of a) snl)"
    | "f \<in> set (value_col (start_dict a) (samples_of a) snl)"
    | "f \<in> set (value_col (end_dict a) (samples_of a) snl)"
    unfolding row_fields_def by auto
  then show ?thesis
  proof cases
    case 1
    then show ?thesis using c str_int_no_tab by auto
  next
    case 2
    then show ?thesis by (rule bool_list_no_tab)
  next
    case 3
    show ?thesis by (rule value_col_no_tab[OF d1 3])
  next
    case 4
    show ?thesis by (rule value_col_no_tab[OF d2 4])
  next
    case 5
    show ?thesis by (rule value_col_no_tab[OF d3 5])
  next
    case 6
    show ?thesis by (rule value_col_no_tab[OF d4 6])
  next
    case 7
    show ?thesis by (rule value_col_no_tab[OF d5 7])
  qed
qed

lemma ofields_no_tab:
  assumes "\<forall>x \<in> set snl. TAB \<notin> set x" and "f \<in> set (ofields snl)"
  shows "TAB \<notin> set f"
  using assms unfolding ofields_def by auto

lemma split_join_fields:
  assumes "length ol = 6 + 6 * n" and "\<forall>f \<in> set ol. TAB \<notin> set f"
  shows "py_split [TAB] (py_join [TAB] ol) = ol"
proof -
  have "ol \<noteq> []" using assms(1) by auto
  then show ?thesis using assms(2) by (rule py_split_join)
qed

subsection \<open>C6: the number of fields of every output row\<close>

text \<open>
  C6. When Discovery returns the sample names \<open>U\<close>, the primary output is the header row
  followed by the rows that the loop has written, each a line of tab-joined fields. Splitting
  any of these rows at the tabs gives back its fields, and there are exactly
  \<open>6 + 6 * |U|\<close> of them, whichever samples contribute to the row. The text of a float holds
  no tab.
\<close>

theorem output_rows_field_count:
  assumes "set_iteration iter" and "\<forall>x. TAB \<notin> set (sf x)"
    and "sample_discovery iter fin = Inr U"
  shows "primary (macs2_merged_expand pint pf sf iter fin mr) =
           Some (map write_line (ofields U # fout (fst (expand_lines pint pf sf U mr state_init fin)))) \<and>
         (\<forall>ol \<in> set (ofields U # fout (fst (expand_lines pint pf sf U mr state_init fin))).
            py_split [TAB] (py_join [TAB] ol) = ol \<and>
            length (py_split [TAB] (py_join [TAB] ol)) = 6 + 6 * card (set U))"
proof -
  let ?P = "\<lambda>ol. length ol = 6 + 6 * length U \<and> (\<forall>f \<in> set ol. TAB \<notin> set f)"
  have card: "card (set U) = length U"
    using sample_discovery_props(2)[OF assms(1,3)] by (rule distinct_card)
  have hdr: "?P (ofields U)"
    using sample_name_no_tab[OF assms(1,3)] ofields_no_tab[of U]
    by (auto simp: length_ofields)
  have rows: "\<forall>ol \<in> set (fout (fst (expand_lines pint pf sf U mr state_init fin))). ?P ol"
  proof (rule expand_lines_rows)
    show "\<forall>ol \<in> set (fout state_init). ?P ol" by (simp add: state_init_def)
  next
    fix line r a n
    assume "line \<in> set fin" and p: "parse_row pint pf line = Inr r"
      and rd: "row_dicts sf mr r = Inr a" and "samples_of a \<noteq> []"
    show "?P (row_fields U n r a)"
      using row_fields_no_tab[OF p rd assms(2)] by (auto simp: length_row_fields)
  qed
  have fin: "py_split [TAB] (py_join [TAB] ol) = ol \<and>
             length (py_split [TAB] (py_join [TAB] ol)) = 6 + 6 * card (set U)"
    if "?P ol" for ol
    using that split_join_fields[of ol "length U"] by (simp add: card)
  have "\<forall>ol \<in> set (ofields U # fout (fst (expand_lines pint pf sf U mr state_init fin))). ?P ol"
    using hdr rows by simp
  then have "\<forall>ol \<in> set (ofields U # fout (fst (expand_lines pint pf sf U mr state_init fin))).
            py_split [TAB] (py_join [TAB] ol) = ol \<and>
            length (py_split [TAB] (py_join [TAB] ol)) = 6 + 6 * card (set U)"
    using fin by blast
  with primary_eq[OF assms(3), of pint pf sf mr] show ?thesis by (rule conjI)
qed

lemma str_float_int_no_tab: "\<forall>x. TAB \<notin> set (str_float_int x)"
  by (simp add: str_float_int_def str_int_no_tab)

theorem output_rows_field_count_witness:
  "set_iteration (\<lambda>s::string set. rev (sorted_list_of_set s)) \<and>
   sample_discovery (\<lambda>s. rev (sorted_list_of_set s))
     [write_line [''chr1'', ''100'', ''500'', ''100,200,150'', ''300,500,400'',
        ''A_rep1_peak_1,A_rep2_peak_1,B_rep1_peak_1'', ''.,.,.'', ''0,0,0'', ''2,3,1'', ''5,6,4'',
        ''7,8,9''],
      write_line [''chr2'', ''1'', ''9'', ''1'', ''9'', ''B_rep1_peak_7'', ''.'', ''0'', ''2'', ''4'',
        ''6'']]
     = Inr [''A_rep1'', ''A_rep2'', ''B_rep1''] \<and>
   length (py_split [TAB] (py_join [TAB]
     [''chr1'', ''100'', ''500'', ''Interval_1'', ''3'', ''2'', ''TRUE'', ''TRUE'', ''FALSE'',
      ''2.0'', ''3.0'', ''NA'', ''7.0'', ''8.0'', ''NA'', ''5.0'', ''6.0'', ''NA'', ''100'', ''200'',
      ''NA'', ''300'', ''500'', ''NA''])) = 6 + 6 * card (set [''A_rep1'', ''A_rep2'', ''B_rep1''])"
proof -
  let ?it = "\<lambda>s::string set. rev (sorted_list_of_set s)"
  let ?fin = "[write_line [''chr1'', ''100'', ''500'', ''100,200,150'', ''300,500,400'',
        ''A_rep1_peak_1,A_rep2_peak_1,B_rep1_peak_1'', ''.,.,.'', ''0,0,0'', ''2,3,1'', ''5,6,4'',
        ''7,8,9''],
      write_line [''chr2'', ''1'', ''9'', ''1'', ''9'', ''B_rep1_peak_7'', ''.'', ''0'', ''2'', ''4'',
        ''6'']]"
  let ?U = "[''A_rep1'', ''A_rep2'', ''B_rep1'']"
  let ?row = "[''chr1'', ''100'', ''500'', ''Interval_1'', ''3'', ''2'', ''TRUE'', ''TRUE'', ''FALSE'',
      ''2.0'', ''3.0'', ''NA'', ''7.0'', ''8.0'', ''NA'', ''5.0'', ''6.0'', ''NA'', ''100'', ''200'',
      ''NA'', ''300'', ''500'', ''NA'']"
  have h1: "set_iteration ?it" by (rule set_iteration_rev_sorted)
  have h3: "sample_discovery ?it ?fin = Inr ?U" by code_simp
  have rows: "fout (fst (expand_lines int_ascii float_int str_float_int ?U 2 state_init ?fin)) = [?row]"
    by code_simp
  from output_rows_field_count[OF h1 str_float_int_no_tab h3, of int_ascii float_int 2]
  have "\<forall>ol \<in> set (ofields ?U # fout (fst (expand_lines int_ascii float_int str_float_int ?U 2 state_init ?fin))).
            py_split [TAB] (py_join [TAB] ol) = ol \<and>
            length (py_split [TAB] (py_join [TAB] ol)) = 6 + 6 * card (set ?U)"
    by (rule conjunct2)
  then have "length (py_split [TAB] (py_join [TAB] ?row)) = 6 + 6 * card (set ?U)"
    unfolding rows by simp
  with h1 h3 show ?thesis by blast
qed

subsection \<open>C7: \<open>num_samples\<close> counts the TRUE columns\<close>

text \<open>
  C7. In every row written to the primary output, the field \<open>num_samples\<close> (field 5) is the
  text of the number of TRUE entries among the boolean columns of the row (the \<open>|U|\<close> fields
  that follow the first six).
\<close>

theorem num_samples_counts_true:
  assumes "set_iteration iter" and "sample_discovery iter fin = Inr U"
  shows "primary (macs2_merged_expand pint pf sf iter fin mr) =
           Some (map write_line (ofields U # fout (fst (expand_lines pint pf sf U mr state_init fin)))) \<and>
         (\<forall>ol \<in> set (fout (fst (expand_lines pint pf sf U mr state_init fin))).
            ol ! 5 = str_int (int (length (filter (\<lambda>b. b = ''TRUE'') (take (length U) (drop 6 ol))))))"
proof -
  let ?P = "\<lambda>ol. ol ! 5 =
      str_int (int (length (filter (\<lambda>b. b = ''TRUE'') (take (length U) (drop 6 ol)))))"
  have dU: "distinct U" by (rule sample_discovery_props(2)[OF assms])
  have rows: "\<forall>ol \<in> set (fout (fst (expand_lines pint pf sf U mr state_init fin))). ?P ol"
  proof (rule expand_lines_rows)
    show "\<forall>ol \<in> set (fout state_init). ?P ol" by (simp add: state_init_def)
  next
    fix line r a n
    assume l: "line \<in> set fin" and p: "parse_row pint pf line = Inr r"
      and rd: "row_dicts sf mr r = Inr a" and "samples_of a \<noteq> []"
    have sub: "set (samples_of a) \<subseteq> set U"
      using samples_of_props(1)[OF rd] pass_subset_names[of mr "names r"]
        row_samples_in_universe[OF assms l p] by blast
    have "filter (\<lambda>b. b = ''TRUE'') (bool_list (samples_of a) U) =
          map (\<lambda>x. ''TRUE'') (filter (\<lambda>x. x \<in> set (samples_of a)) U)"
      unfolding bool_list_def by (induction U) auto
    then have "length (filter (\<lambda>b. b = ''TRUE'') (bool_list (samples_of a) U)) =
          length (filter (\<lambda>x. x \<in> set (samples_of a)) U)" by simp
    also have "\<dots> = card (set (filter (\<lambda>x. x \<in> set (samples_of a)) U))"
      by (rule distinct_card[symmetric]) (simp add: dU)
    also have "set (filter (\<lambda>x. x \<in> set (samples_of a)) U) = set (samples_of a)"
      using sub by auto
    also have "card (set (samples_of a)) = length (samples_of a)"
      using samples_of_props(2)[OF rd] by (rule distinct_card)
    finally have cnt: "length (filter (\<lambda>b. b = ''TRUE'') (bool_list (samples_of a) U)) =
          length (samples_of a)" .
    have "take (length U) (drop 6 (row_fields U n r a)) = bool_list (samples_of a) U"
      by (simp add: row_fields_def length_bool_list)
    moreover have "row_fields U n r a ! 5 = str_int (int (length (samples_of a)))"
      by (simp add: row_fields_def)
    ultimately show "?P (row_fields U n r a)" using cnt by simp
  qed
  from primary_eq[OF assms(2), of pint pf sf mr] rows show ?thesis by (rule conjI)
qed


theorem num_samples_counts_true_witness:
  "set_iteration (\<lambda>s::string set. rev (sorted_list_of_set s)) \<and>
   sample_discovery (\<lambda>s. rev (sorted_list_of_set s))
     [write_line [''chr1'', ''100'', ''500'', ''100,200,150'', ''300,500,400'',
        ''A_rep1_peak_1,A_rep2_peak_1,B_rep1_peak_1'', ''.,.,.'', ''0,0,0'', ''2,3,1'', ''5,6,4'',
        ''7,8,9''],
      write_line [''chr2'', ''1'', ''9'', ''1'', ''9'', ''B_rep1_peak_7'', ''.'', ''0'', ''2'', ''4'',
        ''6'']]
     = Inr [''A_rep1'', ''A_rep2'', ''B_rep1''] \<and>
   [''chr1'', ''100'', ''500'', ''Interval_1'', ''3'', ''2'', ''TRUE'', ''TRUE'', ''FALSE'',
      ''2.0'', ''3.0'', ''NA'', ''7.0'', ''8.0'', ''NA'', ''5.0'', ''6.0'', ''NA'', ''100'', ''200'',
      ''NA'', ''300'', ''500'', ''NA''] ! 5 =
   str_int (int (length (filter (\<lambda>b. b = ''TRUE'')
     (take (length [''A_rep1'', ''A_rep2'', ''B_rep1''])
       (drop 6 [''chr1'', ''100'', ''500'', ''Interval_1'', ''3'', ''2'', ''TRUE'', ''TRUE'',
          ''FALSE'', ''2.0'', ''3.0'', ''NA'', ''7.0'', ''8.0'', ''NA'', ''5.0'', ''6.0'', ''NA'',
          ''100'', ''200'', ''NA'', ''300'', ''500'', ''NA''])))))"
proof -
  let ?it = "\<lambda>s::string set. rev (sorted_list_of_set s)"
  let ?fin = "[write_line [''chr1'', ''100'', ''500'', ''100,200,150'', ''300,500,400'',
        ''A_rep1_peak_1,A_rep2_peak_1,B_rep1_peak_1'', ''.,.,.'', ''0,0,0'', ''2,3,1'', ''5,6,4'',
        ''7,8,9''],
      write_line [''chr2'', ''1'', ''9'', ''1'', ''9'', ''B_rep1_peak_7'', ''.'', ''0'', ''2'', ''4'',
        ''6'']]"
  let ?U = "[''A_rep1'', ''A_rep2'', ''B_rep1'']"
  let ?row = "[''chr1'', ''100'', ''500'', ''Interval_1'', ''3'', ''2'', ''TRUE'', ''TRUE'', ''FALSE'',
      ''2.0'', ''3.0'', ''NA'', ''7.0'', ''8.0'', ''NA'', ''5.0'', ''6.0'', ''NA'', ''100'', ''200'',
      ''NA'', ''300'', ''500'', ''NA'']"
  have h1: "set_iteration ?it" by (rule set_iteration_rev_sorted)
  have h2: "sample_discovery ?it ?fin = Inr ?U" by code_simp
  have rows: "fout (fst (expand_lines int_ascii float_int str_float_int ?U 2 state_init ?fin)) = [?row]"
    by code_simp
  from num_samples_counts_true[OF h1 h2, of int_ascii float_int str_float_int 2]
  have "\<forall>ol \<in> set (fout (fst (expand_lines int_ascii float_int str_float_int ?U 2 state_init ?fin))).
            ol ! 5 = str_int (int (length (filter (\<lambda>b. b = ''TRUE'') (take (length ?U) (drop 6 ol)))))"
    by (rule conjunct2)
  then have "?row ! 5 =
      str_int (int (length (filter (\<lambda>b. b = ''TRUE'') (take (length ?U) (drop 6 ?row)))))"
    unfolding rows by simp
  with h1 h2 show ?thesis by blast
qed

subsection \<open>The counter and the frequencies\<close>

lemma sum_list_comb_freq_incr:
  "sum_list (map snd (comb_freq_incr k d)) = sum_list (map snd d) + 1"
  unfolding comb_freq_incr_def by (induction d) auto

lemma sum_list_insort_key:
  "sum_list (map f (insort_key g x xs)) = f x + sum_list (map f xs)"
  for f :: "'a \<Rightarrow> int"
  by (induction xs) auto

lemma sum_list_sort: "sum_list (map f (sort xs)) = sum_list (map f xs)"
  for f :: "'a::linorder \<Rightarrow> int"
  by (induction xs) (auto simp: sum_list_insort_key)

lemma sum_list_comb_freq_items:
  "sum_list (map fst (comb_freq_items d)) = sum_list (map snd d)"
proof -
  have "sum_list (map fst (comb_freq_items d)) =
        sum_list (map fst (sort (rev (map (\<lambda>(x, n). (n, x)) d))))"
    unfolding comb_freq_items_def sorted_reverse_def
    by (simp add: rev_map[symmetric] del: rev_rev_ident)
  also have "\<dots> = sum_list (map fst (rev (map (\<lambda>(x, n). (n, x)) d)))"
    by (rule sum_list_sort)
  also have "\<dots> = sum_list (map snd d)"
    by (simp add: rev_map[symmetric] comp_def case_prod_unfold del: rev_rev_ident)
  finally show ?thesis .
qed

lemma row_fields_id: "row_fields snl n r a ! 3 = ''Interval_'' @ str_int (n + 1)"
  by (simp add: row_fields_def)

lemma expand_lines_counts:
  "sum_list (map snd (comb_freq_dict (fst (expand_lines pint pf sf snl mr state_init fin)))) =
     int (length (fout (fst (expand_lines pint pf sf snl mr state_init fin))))"
proof (rule expand_lines_invariant[where
      I = "\<lambda>s. sum_list (map snd (comb_freq_dict s)) = int (length (fout s))"])
  show "sum_list (map snd (comb_freq_dict state_init)) = int (length (fout state_init))"
    by (simp add: state_init_def)
next
  fix s line s'
  assume I: "sum_list (map snd (comb_freq_dict s)) = int (length (fout s))"
    and e: "expand_line pint pf sf snl mr s line = Inr s'"
  from e obtain r a where "parse_row pint pf line = Inr r"
    and s': "s' = (if samples_of a = [] then s else emit snl r a s)"
    by (rule expand_line_Inr)
  show "sum_list (map snd (comb_freq_dict s')) = int (length (fout s'))"
    using I unfolding s' by (simp add: emit_def sum_list_comb_freq_incr)
qed

lemma expand_lines_ids:
  "total_out_intervals (fst (expand_lines pint pf sf snl mr state_init fin)) =
     int (length (fout (fst (expand_lines pint pf sf snl mr state_init fin)))) \<and>
   map (\<lambda>ol. ol ! 3) (fout (fst (expand_lines pint pf sf snl mr state_init fin))) =
     map (\<lambda>k. ''Interval_'' @ str_int (int k + 1))
       [0..<length (fout (fst (expand_lines pint pf sf snl mr state_init fin)))]"
proof (rule expand_lines_invariant[where
      I = "\<lambda>s. total_out_intervals s = int (length (fout s)) \<and>
            map (\<lambda>ol. ol ! 3) (fout s) =
              map (\<lambda>k. ''Interval_'' @ str_int (int k + 1)) [0..<length (fout s)]"])
  show "total_out_intervals state_init = int (length (fout state_init)) \<and>
        map (\<lambda>ol. ol ! 3) (fout state_init) =
          map (\<lambda>k. ''Interval_'' @ str_int (int k + 1)) [0..<length (fout state_init)]"
    by (simp add: state_init_def)
next
  fix s line s'
  assume I: "total_out_intervals s = int (length (fout s)) \<and>
            map (\<lambda>ol. ol ! 3) (fout s) =
              map (\<lambda>k. ''Interval_'' @ str_int (int k + 1)) [0..<length (fout s)]"
    and e: "expand_line pint pf sf snl mr s line = Inr s'"
  from e obtain r a where "parse_row pint pf line = Inr r"
    and s': "s' = (if samples_of a = [] then s else emit snl r a s)"
    by (rule expand_line_Inr)
  show "total_out_intervals s' = int (length (fout s')) \<and>
            map (\<lambda>ol. ol ! 3) (fout s') =
              map (\<lambda>k. ''Interval_'' @ str_int (int k + 1)) [0..<length (fout s')]"
    using I unfolding s' by (simp add: emit_def row_fields_id)
qed

lemma expand_lines_fout_prefix:
  "\<exists>rows. fout (fst (expand_lines pint pf sf snl mr s fin)) = fout s @ rows"
proof (rule expand_lines_invariant[where I = "\<lambda>t. \<exists>rows. fout t = fout s @ rows"])
  show "\<exists>rows. fout s = fout s @ rows" by simp
next
  fix t line t'
  assume I: "\<exists>rows. fout t = fout s @ rows"
    and e: "expand_line pint pf sf snl mr t line = Inr t'"
  from e obtain r a where "parse_row pint pf line = Inr r"
    and t': "t' = (if samples_of a = [] then t else emit snl r a t)"
    by (rule expand_line_Inr)
  show "\<exists>rows. fout t' = fout s @ rows"
    using I unfolding t' by (auto simp: emit_def)
qed

subsection \<open>C3: dropped rows and interval identifiers\<close>

lemma interval_ids_rows:
  assumes "parse_row pint pf line = Inr r" and "row_dicts sf mr r = Inr a"
  shows "set (samples_of a) = (\<lambda>idx. sample_id (names r ! idx)) ` set (eligible mr r) \<and>
    (samples_of a = [] \<longrightarrow> expand_line pint pf sf snl mr s line = Inr s) \<and>
    (samples_of a \<noteq> [] \<longrightarrow>
       (\<exists>ol. expand_line pint pf sf snl mr s line =
               Inr \<lparr>comb_freq_dict = comb_freq_incr (sort (samples_of a)) (comb_freq_dict s),
                    total_out_intervals = total_out_intervals s + 1,
                    fout = fout s @ [ol]\<rparr> \<and>
             ol ! 3 = ''Interval_'' @ str_int (total_out_intervals s + 1))) \<and>
    (\<forall>fin. map (\<lambda>ol. ol ! 3) (fout (fst (expand_lines pint pf sf snl mr state_init fin))) =
       map (\<lambda>k. ''Interval_'' @ str_int (int k + 1))
         [0..<length (fout (fst (expand_lines pint pf sf snl mr state_init fin)))]) \<and>
    (\<forall>fin1 fin2 s1. expand_lines pint pf sf snl mr state_init fin1 = (s1, None) \<longrightarrow>
       (\<exists>rows. fout (fst (expand_lines pint pf sf snl mr state_init (fin1 @ fin2))) = fout s1 @ rows))"
proof -
  have ok: "\<forall>idx \<in> set (eligible mr r). in_range r idx"
    and a: "a = fold (acc_add sf r) (eligible mr r) acc_empty"
    using assms(2) unfolding row_dicts_eq by (auto split: if_splits)
  note el = expand_line_eq[OF assms(1), of sf snl mr s]
  have c1: "set (samples_of a) = (\<lambda>idx. sample_id (names r ! idx)) ` set (eligible mr r)"
    unfolding samples_of_props(1)[OF assms(2)] eligible_samples ..
  have c2: "samples_of a = [] \<longrightarrow> expand_line pint pf sf snl mr s line = Inr s"
    unfolding el using ok a by simp
  have c3: "samples_of a \<noteq> [] \<longrightarrow>
       (\<exists>ol. expand_line pint pf sf snl mr s line =
               Inr \<lparr>comb_freq_dict = comb_freq_incr (sort (samples_of a)) (comb_freq_dict s),
                    total_out_intervals = total_out_intervals s + 1,
                    fout = fout s @ [ol]\<rparr> \<and>
             ol ! 3 = ''Interval_'' @ str_int (total_out_intervals s + 1))"
  proof
    assume ne: "samples_of a \<noteq> []"
    have "expand_line pint pf sf snl mr s line = Inr (emit snl r a s)"
      unfolding el using ok a ne by simp
    then show "\<exists>ol. expand_line pint pf sf snl mr s line =
               Inr \<lparr>comb_freq_dict = comb_freq_incr (sort (samples_of a)) (comb_freq_dict s),
                    total_out_intervals = total_out_intervals s + 1,
                    fout = fout s @ [ol]\<rparr> \<and>
             ol ! 3 = ''Interval_'' @ str_int (total_out_intervals s + 1)"
      by (intro exI[of _ "row_fields snl (total_out_intervals s) r a"])
         (simp add: emit_def row_fields_id)
  qed
  have c4: "\<forall>fin. map (\<lambda>ol. ol ! 3) (fout (fst (expand_lines pint pf sf snl mr state_init fin))) =
       map (\<lambda>k. ''Interval_'' @ str_int (int k + 1))
         [0..<length (fout (fst (expand_lines pint pf sf snl mr state_init fin)))]"
    using expand_lines_ids[of pint pf sf snl mr] by blast
  have c5: "\<forall>fin1 fin2 s1. expand_lines pint pf sf snl mr state_init fin1 = (s1, None) \<longrightarrow>
       (\<exists>rows. fout (fst (expand_lines pint pf sf snl mr state_init (fin1 @ fin2))) = fout s1 @ rows)"
  proof (intro allI impI)
    fix fin1 fin2 s1
    assume "expand_lines pint pf sf snl mr state_init fin1 = (s1, None)"
    then have "expand_lines pint pf sf snl mr state_init (fin1 @ fin2) =
               expand_lines pint pf sf snl mr s1 fin2"
      by (simp add: expand_lines_append)
    then show "\<exists>rows. fout (fst (expand_lines pint pf sf snl mr state_init (fin1 @ fin2))) = fout s1 @ rows"
      using expand_lines_fout_prefix[of pint pf sf snl mr s1 fin2] by simp
  qed
  from c1 c2 c3 c4 c5 show ?thesis by (intro conjI)
qed

text \<open>
  C3. The text of an integer determines the integer, and for an integer that is not negative
  it is the string of decimal digits whose value is that integer: the identifiers
  \<open>Interval_k\<close> of different \<open>k\<close> differ. For a row that parses and whose dictionaries are
  built: the contributing samples (\<^verbatim>\<open>samples\<close> of line 170) are the SampleIDs with at least
  one eligible source. When there is none, the row leaves the state as it is: no output line,
  no update of the frequencies, no identifier consumed. Otherwise exactly one row is appended,
  its identifier is \<open>Interval_\<close> followed by the counter plus one, and the counter and the
  frequency of the combination go up by one. Over a whole input the identifiers of the rows
  written are \<open>Interval_1\<close>, \<open>Interval_2\<close>, ... in the order of the rows, and the rows of an
  initial part of the input come first in the output of the whole input: the rows are in input
  order.
\<close>

theorem interval_ids_dense:
  assumes "parse_row pint pf line = Inr r" and "row_dicts sf mr r = Inr a"
  shows "(\<forall>i j. str_int i = str_int j \<longrightarrow> i = j) \<and>
    (\<forall>k. 0 \<le> k \<longrightarrow> (\<forall>c \<in> set (str_int k). is_digit c) \<and> digits_value (str_int k) = k) \<and>
    set (samples_of a) = (\<lambda>idx. sample_id (names r ! idx)) ` set (eligible mr r) \<and>
    (samples_of a = [] \<longrightarrow> expand_line pint pf sf snl mr s line = Inr s) \<and>
    (samples_of a \<noteq> [] \<longrightarrow>
       (\<exists>ol. expand_line pint pf sf snl mr s line =
               Inr \<lparr>comb_freq_dict = comb_freq_incr (sort (samples_of a)) (comb_freq_dict s),
                    total_out_intervals = total_out_intervals s + 1,
                    fout = fout s @ [ol]\<rparr> \<and>
             ol ! 3 = ''Interval_'' @ str_int (total_out_intervals s + 1))) \<and>
    (\<forall>fin. map (\<lambda>ol. ol ! 3) (fout (fst (expand_lines pint pf sf snl mr state_init fin))) =
       map (\<lambda>k. ''Interval_'' @ str_int (int k + 1))
         [0..<length (fout (fst (expand_lines pint pf sf snl mr state_init fin)))]) \<and>
    (\<forall>fin1 fin2 s1. expand_lines pint pf sf snl mr state_init fin1 = (s1, None) \<longrightarrow>
       (\<exists>rows. fout (fst (expand_lines pint pf sf snl mr state_init (fin1 @ fin2))) = fout s1 @ rows))"
proof -
  have s1: "\<forall>i j. str_int i = str_int j \<longrightarrow> i = j"
    using str_int_inj by blast
  have s2: "\<forall>k. 0 \<le> k \<longrightarrow> (\<forall>c \<in> set (str_int k). is_digit c) \<and> digits_value (str_int k) = k"
    using str_int_decimal by blast
  note old = interval_ids_rows[OF assms, of snl s]
  show ?thesis by (rule conjI[OF s1 conjI[OF s2 old]])
qed

theorem interval_ids_dense_witness:
  "parse_row int_ascii float_int
     (write_line [''chr2'', ''1'', ''9'', ''1'', ''9'', ''B_rep1_peak_7'', ''.'', ''0'', ''2'', ''4'',
        ''6''])
   = Inr \<lparr>chrom_id = ''chr2'', mstart = 1, mend = 9, starts = [1], ends = [9],
        names = [''B_rep1_peak_7''], fcs = [2], pvals = [4], qvals = [6]\<rparr> \<and>
   row_dicts str_float_int 2
     \<lparr>chrom_id = ''chr2'', mstart = 1, mend = 9, starts = [1], ends = [9],
      names = [''B_rep1_peak_7''], fcs = [2], pvals = [4], qvals = [6]\<rparr>
   = Inr acc_empty \<and>
   expand_line int_ascii float_int str_float_int [''A_rep1'', ''A_rep2'', ''B_rep1''] 2
     \<lparr>comb_freq_dict = [([''A_rep1'', ''A_rep2''], 1)], total_out_intervals = 1,
      fout = [[''chr1'']]\<rparr>
     (write_line [''chr2'', ''1'', ''9'', ''1'', ''9'', ''B_rep1_peak_7'', ''.'', ''0'', ''2'', ''4'',
        ''6''])
   = Inr \<lparr>comb_freq_dict = [([''A_rep1'', ''A_rep2''], 1)], total_out_intervals = 1,
      fout = [[''chr1'']]\<rparr> \<and>
   map (\<lambda>ol. ol ! 3)
     (fout (fst (expand_lines int_ascii float_int str_float_int [''A_rep1'', ''A_rep2'', ''B_rep1''] 2
        state_init
        [write_line [''chr1'', ''100'', ''500'', ''100,200,150'', ''300,500,400'',
           ''A_rep1_peak_1,A_rep2_peak_1,B_rep1_peak_1'', ''.,.,.'', ''0,0,0'', ''2,3,1'', ''5,6,4'',
           ''7,8,9''],
         write_line [''chr2'', ''1'', ''9'', ''1'', ''9'', ''B_rep1_peak_7'', ''.'', ''0'', ''2'',
           ''4'', ''6''],
         write_line [''chr1'', ''100'', ''500'', ''100,200,150'', ''300,500,400'',
           ''A_rep1_peak_1,A_rep2_peak_1,B_rep1_peak_1'', ''.,.,.'', ''0,0,0'', ''2,3,1'', ''5,6,4'',
           ''7,8,9'']])))
   = [''Interval_1'', ''Interval_2'']"
proof -
  let ?l = "write_line [''chr2'', ''1'', ''9'', ''1'', ''9'', ''B_rep1_peak_7'', ''.'', ''0'', ''2'',
        ''4'', ''6'']"
  let ?l1 = "write_line [''chr1'', ''100'', ''500'', ''100,200,150'', ''300,500,400'',
           ''A_rep1_peak_1,A_rep2_peak_1,B_rep1_peak_1'', ''.,.,.'', ''0,0,0'', ''2,3,1'', ''5,6,4'',
           ''7,8,9'']"
  let ?r = "\<lparr>chrom_id = ''chr2'', mstart = 1, mend = 9, starts = [1], ends = [9],
      names = [''B_rep1_peak_7''], fcs = [2::int], pvals = [4], qvals = [6]\<rparr>"
  let ?s = "\<lparr>comb_freq_dict = [([''A_rep1'', ''A_rep2''], 1)], total_out_intervals = 1,
      fout = [[''chr1'']]\<rparr>"
  let ?U = "[''A_rep1'', ''A_rep2'', ''B_rep1'']"
  let ?rows = "fout (fst (expand_lines int_ascii float_int str_float_int ?U 2 state_init
      [?l1, ?l, ?l1]))"
  have h1: "parse_row int_ascii float_int ?l = Inr ?r" by code_simp
  have h2: "row_dicts str_float_int 2 ?r = Inr acc_empty" by code_simp
  have h3: "samples_of acc_empty = []" by code_simp
  note t = interval_ids_dense[OF h1 h2, of ?U ?s]
  from t have "samples_of acc_empty = [] \<longrightarrow>
      expand_line int_ascii float_int str_float_int ?U 2 ?s ?l = Inr ?s"
    by blast
  with h3 have d: "expand_line int_ascii float_int str_float_int ?U 2 ?s ?l = Inr ?s" by blast
  from t have "\<forall>fin. map (\<lambda>ol. ol ! 3)
        (fout (fst (expand_lines int_ascii float_int str_float_int ?U 2 state_init fin))) =
       map (\<lambda>k. ''Interval_'' @ str_int (int k + 1))
         [0..<length (fout (fst (expand_lines int_ascii float_int str_float_int ?U 2 state_init fin)))]"
    by blast
  then have e: "map (\<lambda>ol. ol ! 3) ?rows =
      map (\<lambda>k. ''Interval_'' @ str_int (int k + 1)) [0..<length ?rows]" by blast
  have len: "length ?rows = 2" by code_simp
  have ids: "map (\<lambda>k. ''Interval_'' @ str_int (int k + 1)) [0..<2] = [''Interval_1'', ''Interval_2'']"
    by code_simp
  have "map (\<lambda>ol. ol ! 3) ?rows = [''Interval_1'', ''Interval_2'']"
    using e unfolding len ids .
  with h1 h2 d show ?thesis by blast
qed

subsection \<open>C8: the counts sum to the number of rows\<close>

text \<open>
  C8. After the loop over the lines, whether it ended normally or by an exception, the counts
  of the CombinationFrequency mapping sum to the number of rows written to the primary output
  (the header apart). When the run completes, the secondary file holds one line for each pair
  of the Summarizer, and the counts of these pairs sum to the same number.
\<close>

theorem counts_sum_to_rows:
  assumes "sample_discovery iter fin = Inr U"
    and "expand_lines pint pf sf U mr state_init fin = (s, err)"
  shows "sum_list (map snd (comb_freq_dict s)) = int (length (fout s)) \<and>
    primary (macs2_merged_expand pint pf sf iter fin mr) = Some (map write_line (ofields U # fout s)) \<and>
    (err = None \<longrightarrow>
       secondary (macs2_merged_expand pint pf sf iter fin mr) =
         Some (map intersect_line (comb_freq_items (comb_freq_dict s))) \<and>
       sum_list (map fst (comb_freq_items (comb_freq_dict s))) = int (length (fout s)))"
proof -
  have s: "s = fst (expand_lines pint pf sf U mr state_init fin)" using assms(2) by simp
  have c1: "sum_list (map snd (comb_freq_dict s)) = int (length (fout s))"
    unfolding s by (rule expand_lines_counts)
  have c2: "primary (macs2_merged_expand pint pf sf iter fin mr) =
      Some (map write_line (ofields U # fout s))"
    unfolding s by (rule primary_eq[OF assms(1)])
  have c3: "err = None \<longrightarrow>
       secondary (macs2_merged_expand pint pf sf iter fin mr) =
         Some (map intersect_line (comb_freq_items (comb_freq_dict s))) \<and>
       sum_list (map fst (comb_freq_items (comb_freq_dict s))) = int (length (fout s))"
    using assms c1 by (simp add: macs2_merged_expand_def sum_list_comb_freq_items)
  from c1 c2 c3 show ?thesis by (intro conjI)
qed

theorem counts_sum_to_rows_witness:
  "sample_discovery sorted_list_of_set
     [write_line [''chr1'', ''100'', ''500'', ''100,200,150'', ''300,500,400'',
        ''A_rep1_peak_1,A_rep2_peak_1,B_rep1_peak_1'', ''.,.,.'', ''0,0,0'', ''2,3,1'', ''5,6,4'',
        ''7,8,9''],
      write_line [''chr2'', ''1'', ''9'', ''1'', ''9'', ''B_rep1_peak_7'', ''.'', ''0'', ''2'', ''4'',
        ''6'']]
     = Inr [''A_rep1'', ''A_rep2'', ''B_rep1''] \<and>
   expand_lines int_ascii float_int str_float_int [''A_rep1'', ''A_rep2'', ''B_rep1''] 2 state_init
     [write_line [''chr1'', ''100'', ''500'', ''100,200,150'', ''300,500,400'',
        ''A_rep1_peak_1,A_rep2_peak_1,B_rep1_peak_1'', ''.,.,.'', ''0,0,0'', ''2,3,1'', ''5,6,4'',
        ''7,8,9''],
      write_line [''chr2'', ''1'', ''9'', ''1'', ''9'', ''B_rep1_peak_7'', ''.'', ''0'', ''2'', ''4'',
        ''6'']]
     = (\<lparr>comb_freq_dict = [([''A_rep1'', ''A_rep2''], 1)], total_out_intervals = 1,
         fout = [[''chr1'', ''100'', ''500'', ''Interval_1'', ''3'', ''2'', ''TRUE'', ''TRUE'',
           ''FALSE'', ''2.0'', ''3.0'', ''NA'', ''7.0'', ''8.0'', ''NA'', ''5.0'', ''6.0'', ''NA'',
           ''100'', ''200'', ''NA'', ''300'', ''500'', ''NA'']]\<rparr>, None) \<and>
   secondary (macs2_merged_expand int_ascii float_int str_float_int sorted_list_of_set
     [write_line [''chr1'', ''100'', ''500'', ''100,200,150'', ''300,500,400'',
        ''A_rep1_peak_1,A_rep2_peak_1,B_rep1_peak_1'', ''.,.,.'', ''0,0,0'', ''2,3,1'', ''5,6,4'',
        ''7,8,9''],
      write_line [''chr2'', ''1'', ''9'', ''1'', ''9'', ''B_rep1_peak_7'', ''.'', ''0'', ''2'', ''4'',
        ''6'']] 2)
     = Some (map intersect_line (comb_freq_items [([''A_rep1'', ''A_rep2''], 1)])) \<and>
   sum_list (map fst (comb_freq_items [([''A_rep1'', ''A_rep2''], 1)])) = 1"
proof -
  let ?fin = "[write_line [''chr1'', ''100'', ''500'', ''100,200,150'', ''300,500,400'',
        ''A_rep1_peak_1,A_rep2_peak_1,B_rep1_peak_1'', ''.,.,.'', ''0,0,0'', ''2,3,1'', ''5,6,4'',
        ''7,8,9''],
      write_line [''chr2'', ''1'', ''9'', ''1'', ''9'', ''B_rep1_peak_7'', ''.'', ''0'', ''2'', ''4'',
        ''6'']]"
  let ?U = "[''A_rep1'', ''A_rep2'', ''B_rep1'']"
  let ?s = "\<lparr>comb_freq_dict = [([''A_rep1'', ''A_rep2''], 1)], total_out_intervals = 1,
         fout = [[''chr1'', ''100'', ''500'', ''Interval_1'', ''3'', ''2'', ''TRUE'', ''TRUE'',
           ''FALSE'', ''2.0'', ''3.0'', ''NA'', ''7.0'', ''8.0'', ''NA'', ''5.0'', ''6.0'', ''NA'',
           ''100'', ''200'', ''NA'', ''300'', ''500'', ''NA'']]\<rparr>"
  have h1: "sample_discovery sorted_list_of_set ?fin = Inr ?U" by code_simp
  have h2: "expand_lines int_ascii float_int str_float_int ?U 2 state_init ?fin = (?s, None)" by code_simp
  from counts_sum_to_rows[OF h1 h2] have
    "secondary (macs2_merged_expand int_ascii float_int str_float_int sorted_list_of_set ?fin 2) =
         Some (map intersect_line (comb_freq_items (comb_freq_dict ?s))) \<and>
     sum_list (map fst (comb_freq_items (comb_freq_dict ?s))) = int (length (fout ?s))"
    by blast
  then have "secondary (macs2_merged_expand int_ascii float_int str_float_int sorted_list_of_set ?fin 2) =
         Some (map intersect_line (comb_freq_items [([''A_rep1'', ''A_rep2''], 1)])) \<and>
     sum_list (map fst (comb_freq_items [([''A_rep1'', ''A_rep2''], 1)])) = 1"
    by simp
  with h1 h2 show ?thesis by blast
qed

lemma set_iteration_sorted: "set_iteration sorted_list_of_set"
  by (simp add: set_iteration_def)

subsection \<open>C9: determinism\<close>

text \<open>
  C9. The outcome of a run, the text of both output files included, is a function of the
  lines of the input and of the threshold: the one thing that can differ between two runs of
  the program on the same input, the order in which the set of sample names is iterated, has
  no effect on it.
\<close>

theorem run_deterministic:
  assumes "set_iteration iter1" and "set_iteration iter2"
  shows "macs2_merged_expand pint pf sf iter1 fin mr = macs2_merged_expand pint pf sf iter2 fin mr"
proof -
  have "sample_discovery iter1 fin = sample_discovery iter2 fin"
    unfolding sample_discovery_eq[OF assms(1)] sample_discovery_eq[OF assms(2)] ..
  then show ?thesis by (simp add: macs2_merged_expand_def)
qed


theorem run_deterministic_witness:
  "set_iteration (sorted_list_of_set :: string set \<Rightarrow> string list) \<and>
   set_iteration (\<lambda>s::string set. rev (sorted_list_of_set s)) \<and>
   macs2_merged_expand int_ascii float_int str_float_int sorted_list_of_set
     [write_line [''chr1'', ''100'', ''500'', ''100,200,150'', ''300,500,400'',
        ''A_rep1_peak_1,A_rep2_peak_1,B_rep1_peak_1'', ''.,.,.'', ''0,0,0'', ''2,3,1'', ''5,6,4'',
        ''7,8,9'']] 2
   = macs2_merged_expand int_ascii float_int str_float_int (\<lambda>s. rev (sorted_list_of_set s))
     [write_line [''chr1'', ''100'', ''500'', ''100,200,150'', ''300,500,400'',
        ''A_rep1_peak_1,A_rep2_peak_1,B_rep1_peak_1'', ''.,.,.'', ''0,0,0'', ''2,3,1'', ''5,6,4'',
        ''7,8,9'']] 2"
  using run_deterministic[OF set_iteration_sorted set_iteration_rev_sorted]
    set_iteration_sorted set_iteration_rev_sorted
  by blast

end
